theory Spec2Isabelle
  imports Main "HOL-Library.Word"
begin

unbundle bit_operations_syntax

section \<open>Machine types and constants of kutrace_mod.c\<close>

text \<open>
  The module is the RISC-V build (\<open>IsRiscv\<close>): \<open>u64\<close> is a 64-bit word, \<open>u32\<close> a 32-bit
  word, and a C \<open>int\<close> is 32 bits wide.

  Every pointer of the module that is compared or moved (\<open>traceblock_high\<close>,
  \<open>traceblock_limit\<close>, \<open>traceblock_next\<close>, the per-CPU \<open>next\<close> and \<open>limit\<close>, a claim) is a
  \<open>u64 *\<close> into the trace memory. It is modelled as an \<open>int\<close>: the address counted in units of
  one \<open>u64\<close>, so that the C expression \<open>p + n\<close> on a \<open>u64 *\<close> is \<open>p + n\<close> here, and
  \<open>NULL\<close> is \<open>0\<close>. Pointer arithmetic that leaves the 64-bit address space is undefined in C
  and is not modelled.
\<close>

type_synonym u64 = "64 word"
type_synonym u32 = "32 word"
type_synonym u8 = "8 word"
type_synonym ptr = int

definition RETVAL_MASK :: u64 where "RETVAL_MASK = 0x0000000000ff0000"
definition DELTA_MASK :: u64 where "DELTA_MASK = 0x00000000ff000000"
definition EVENT_MASK :: u64 where "EVENT_MASK = 0x00000fff00000000"
definition EVENT_DELTA_RETVAL_MASK :: u64 where
  "EVENT_DELTA_RETVAL_MASK = (EVENT_MASK OR DELTA_MASK OR RETVAL_MASK)"
definition EVENT_RETURN_BIT :: u64 where "EVENT_RETURN_BIT = 0x0000020000000000"
definition EVENT_LENGTH_FIELD_MASK :: u64 where "EVENT_LENGTH_FIELD_MASK = 0xf"

definition UNSHIFTED_RETVAL_MASK :: u64 where "UNSHIFTED_RETVAL_MASK = 0xff"
definition UNSHIFTED_EVENT_MASK :: u64 where "UNSHIFTED_EVENT_MASK = 0xfff"
definition UNSHIFTED_TIMESTAMP_MASK :: u64 where "UNSHIFTED_TIMESTAMP_MASK = 0xfffff"
definition UNSHIFTED_EVENT_RETURN_BIT :: u64 where "UNSHIFTED_EVENT_RETURN_BIT = 0x200"
definition UNSHIFTED_EVENT_HAS_RETURN_MASK :: u64 where "UNSHIFTED_EVENT_HAS_RETURN_MASK = 0xc00"

definition MIN_EVENT_WITH_LENGTH :: u64 where "MIN_EVENT_WITH_LENGTH = 0x010"
definition MAX_EVENT_WITH_LENGTH :: u64 where "MAX_EVENT_WITH_LENGTH = 0x1ff"
definition MAX_DELTA_VALUE :: u64 where "MAX_DELTA_VALUE = 255"

definition RETVAL_SHIFT :: nat where "RETVAL_SHIFT = 16"
definition DELTA_SHIFT :: nat where "DELTA_SHIFT = 24"
definition EVENT_SHIFT :: nat where "EVENT_SHIFT = 32"
definition TIMESTAMP_SHIFT :: nat where "TIMESTAMP_SHIFT = 44"
definition EVENT_LENGTH_FIELD_SHIFT :: nat where "EVENT_LENGTH_FIELD_SHIFT = 4"

definition FULL_TIMESTAMP_MASK :: u64 where "FULL_TIMESTAMP_MASK = 0x00ffffffffffffff"
definition CPU_NUMBER_SHIFT :: nat where "CPU_NUMBER_SHIFT = 56"
definition FLAGS_SHIFT :: nat where "FLAGS_SHIFT = 56"
definition IPC_Flag :: u64 where "IPC_Flag = 0x80"
definition WRAP_Flag :: u64 where "WRAP_Flag = 0x40"
definition DO_IPC :: u64 where "DO_IPC = 1"
definition DO_WRAP :: u64 where "DO_WRAP = 2"

definition kModuleVersionNumber :: u64 where "kModuleVersionNumber = 3"
definition kCounterWrapIncrease :: u64 where "kCounterWrapIncrease = 0"
definition kCounterWrapMask :: u64 where "kCounterWrapMask = 0"

text \<open>Trace block size in \<open>u64\<close> words (\<open>1 << (16 - 3)\<close>), and the shifts that go with it.\<close>

definition KUTRACEBLOCKSHIFTU64 :: nat where "KUTRACEBLOCKSHIFTU64 = 13"
definition KUTRACEBLOCKSIZEU64 :: int where "KUTRACEBLOCKSIZEU64 = 8192"
definition KUIPCBLOCKSHIFTU8 :: nat where "KUIPCBLOCKSHIFTU8 = 10"

section \<open>The IPC bucket function\<close>

datatype fault = Div_by_zero

definition kIpcMapping :: "u64 list" where
  "kIpcMapping =
    [0,1,2,3, 4,5,6,7, 8,8,9,9, 10,10,11,11,
     12,12,12,12, 13,13,13,13, 14,14,14,14, 15,15,15,15,
     15,15,15,15, 15,15,15,15, 15,15,15,15, 15,15,15,15,
     15,15,15,15, 15,15,15,15, 15,15,15,15, 15,15,15,15]"

text \<open>
  \<open>get_granular\<close>, RISC-V branch. The guard tests the 64-bit \<open>delta_cycles\<close>; the divisor
  is the 32-bit truncation of \<open>delta_cycles * 150\<close>. The C division \<open>del_inst / del_cycles\<close>
  with a zero divisor is undefined behaviour: the model returns \<open>Inl Div_by_zero\<close> there.
\<close>

definition get_granular :: "u64 \<Rightarrow> u64 \<Rightarrow> fault + u64" where
  "get_granular delta_inst delta_cycles =
    (if delta_cycles AND NOT 1 = 0 then Inr 0
     else
       let del_inst = (ucast delta_inst :: u32);
           del_cycles = (ucast (delta_cycles * 150) :: u32)
       in if del_cycles = 0 then Inl Div_by_zero
          else
            let ipc = del_inst div del_cycles
            in Inr (kIpcMapping ! unat (ipc AND 0x3F)))"

section \<open>Record lengths\<close>

definition is_bad_len :: "int \<Rightarrow> bool" where
  "is_bad_len len = ((len < 1) \<or> (len > 8))"

text \<open>The implicit conversion of a \<open>u64\<close> to the \<open>int\<close> parameter of \<open>is_bad_len\<close> and
  \<open>get_claim\<close>: the low 32 bits, read as two's complement.\<close>

definition u64_to_int :: "u64 \<Rightarrow> int" where
  "u64_to_int w = sint (ucast w :: u32)"

definition entry_len :: "u64 \<Rightarrow> u64" where
  "entry_len word =
    (let n = drop_bit EVENT_SHIFT word AND UNSHIFTED_EVENT_MASK
     in if n > MAX_EVENT_WITH_LENGTH then 1
        else if n < MIN_EVENT_WITH_LENGTH then 1
        else drop_bit EVENT_LENGTH_FIELD_SHIFT n AND EVENT_LENGTH_FIELD_MASK)"

section \<open>Tracer state\<close>

text \<open>
  \<open>struct kutrace_traceblock\<close> (declared in \<open>include/linux/kutrace.h\<close>): the per-CPU cursor
  \<open>next\<close>/\<open>limit\<close> and the IPC bookkeeping. The globals of the module are the fields of
  \<open>kstate\<close>; \<open>mem\<close> is the memory holding the trace buffer, one \<open>u64\<close> per address, and
  \<open>online_cpus\<close> is what \<open>for_each_online_cpu\<close> enumerates.
\<close>

record traceblock =
  tb_next :: ptr
  tb_limit :: ptr
  prior_cycles :: u64
  prior_inst_retired :: u64

record kstate =
  kutrace_tracing :: bool
  do_ipc :: bool
  do_wrap :: bool
  tracemb :: int
  tracebase :: ptr
  traceblock_high :: ptr
  traceblock_limit :: ptr
  traceblock_next :: ptr
  did_wrap_around :: bool
  prior_block_init_counter :: u64
  kutrace_pid_filter :: "nat \<Rightarrow> u64"
  mem :: "ptr \<Rightarrow> u64"
  per_cpu :: "nat \<Rightarrow> traceblock"
  online_cpus :: "nat list"

text \<open>
  What one call reads from its surroundings: the CPU it runs on (\<open>smp_processor_id\<close>), the
  time counter as read by the inserting function (\<open>now\<close>) and by \<open>initialize_trace_block\<close>
  (\<open>block_time\<close>), the instructions-retired counter, the current task's pid and its 16-byte
  name (two words), and the same-CPU interrupts that run inside \<open>get_claim\<close>: for each
  iteration of its loop one interrupt before and one after the atomic add, and one before
  the slow path takes the lock. An interrupt is any change of the state; with no interrupt
  left the loop runs undisturbed. \<open>user_mem\<close> is what \<open>raw_copy_from_user\<close> finds at a user
  address: the eight words there, or \<open>None\<close> when the copy faults.
\<close>

type_synonym irq = "kstate \<Rightarrow> kstate"

record env =
  cpu :: nat
  now :: u64
  block_time :: u64
  inst_ret :: u64
  cur_pid :: u64
  cur_comm :: "u64 \<times> u64"
  loop_irqs :: "(irq \<times> irq) list"
  slow_irq :: irq
  user_mem :: "u64 \<Rightarrow> (nat \<Rightarrow> u64) option"

definition set_tb :: "nat \<Rightarrow> (traceblock \<Rightarrow> traceblock) \<Rightarrow> kstate \<Rightarrow> kstate" where
  "set_tb c f s = s\<lparr>per_cpu := (per_cpu s)(c := f (per_cpu s c))\<rparr>"

section \<open>Session control\<close>

definition do_trace_off :: "kstate \<Rightarrow> u64 \<times> kstate" where
  "do_trace_off s = (0, s\<lparr>kutrace_tracing := False\<rparr>)"

definition do_trace_on :: "kstate \<Rightarrow> u64 \<times> kstate" where
  "do_trace_on s = (1, s\<lparr>kutrace_tracing := True\<rparr>)"

text \<open>The inner loop of \<open>do_flush\<close>: \<open>for (p = next_item; p < limit_item; ++p) { *p = 0; ++zeroed; }\<close>\<close>

function zero_words :: "ptr \<Rightarrow> ptr \<Rightarrow> (ptr \<Rightarrow> u64) \<Rightarrow> int \<Rightarrow> (ptr \<Rightarrow> u64) \<times> int" where
  "zero_words p limit_item m zeroed =
    (if p < limit_item then zero_words (p + 1) limit_item (m(p := 0)) (zeroed + 1)
     else (m, zeroed))"
  by pat_completeness auto
termination
  by (relation "measure (\<lambda>(p, limit_item, m, zeroed). nat (limit_item - p))") auto

declare zero_words.simps [simp del]

definition flush_cpu :: "nat \<Rightarrow> kstate \<times> int \<Rightarrow> kstate \<times> int" where
  "flush_cpu c = (\<lambda>(s, zeroed).
    let tb = per_cpu s c;
        next_item = tb_next tb;
        limit_item = tb_limit tb
    in if next_item = 0 then (s, zeroed)
       else if limit_item = 0 then (s, zeroed)
       else
         let (m, z) = zero_words next_item limit_item (mem s) zeroed
         in (set_tb c (\<lambda>t. t\<lparr>tb_next := limit_item\<rparr>) (s\<lparr>mem := m\<rparr>), z))"

definition do_flush :: "kstate \<Rightarrow> u64 \<times> kstate" where
  "do_flush s =
    (let (s', zeroed) = fold flush_cpu (online_cpus s) (s\<lparr>kutrace_tracing := False\<rparr>, 0)
     in (word_of_int zeroed, s'))"

definition do_stat :: "kstate \<Rightarrow> u64" where
  "do_stat s =
    (if did_wrap_around s \<or> traceblock_next s < traceblock_limit s
     then drop_bit KUTRACEBLOCKSHIFTU64 (word_of_int (traceblock_high s - traceblock_limit s))
     else drop_bit KUTRACEBLOCKSHIFTU64 (word_of_int (traceblock_high s - traceblock_next s)))"

definition get_count :: "kstate \<Rightarrow> u64 \<times> kstate" where
  "get_count s =
    (let s' = s\<lparr>kutrace_tracing := False\<rparr>
     in if did_wrap_around s' \<or> traceblock_next s' < traceblock_limit s'
        then (word_of_int (traceblock_high s' - traceblock_limit s'), s')
        else (word_of_int (traceblock_high s' - traceblock_next s'), s'))"

definition get_word :: "u64 \<Rightarrow> kstate \<Rightarrow> u64 \<times> kstate" where
  "get_word subscr s =
    (let (count, s') = get_count (s\<lparr>kutrace_tracing := False\<rparr>)
     in if subscr \<ge> count then (0, s')
        else
          let blocknum = drop_bit KUTRACEBLOCKSHIFTU64 subscr;
              u64_within_block = subscr AND (push_bit KUTRACEBLOCKSHIFTU64 1 - 1);
              blockp = traceblock_high s' - uint (push_bit KUTRACEBLOCKSHIFTU64 (blocknum + 1))
          in (mem s' (blockp + uint u64_within_block), s'))"

definition get_ipc_word :: "u64 \<Rightarrow> kstate \<Rightarrow> u64 \<times> kstate" where
  "get_ipc_word subscr s =
    (let (count, s') = get_count (s\<lparr>kutrace_tracing := False\<rparr>)
     in if subscr \<ge> drop_bit 3 count then (0, s')
        else
          let blocknum = drop_bit KUIPCBLOCKSHIFTU8 subscr;
              u64_within_block = subscr AND (push_bit KUIPCBLOCKSHIFTU8 1 - 1);
              blockp = traceblock_limit s' - uint (push_bit KUIPCBLOCKSHIFTU8 (blocknum + 1))
          in (mem s' (blockp + uint u64_within_block), s'))"

text \<open>\<open>memset(kutrace_pid_filter, 0, 1024 * sizeof(u64))\<close>: the 64K bits of the filter.\<close>

definition clear_pid_filter :: "(nat \<Rightarrow> u64) \<Rightarrow> (nat \<Rightarrow> u64)" where
  "clear_pid_filter f = (\<lambda>i. if i < 1024 then 0 else f i)"

definition reset_cpu :: "nat \<Rightarrow> kstate \<Rightarrow> kstate" where
  "reset_cpu c s =
    set_tb c (\<lambda>t. t\<lparr>tb_next := 0, tb_limit := 0, prior_cycles := 0, prior_inst_retired := 0\<rparr>) s"

text \<open>
  \<open>do_reset\<close>. \<open>tracebase\<close> is a \<open>char *\<close>, here in \<open>u64\<close> units like every other pointer:
  \<open>tracemb << 20\<close> bytes are \<open>tracemb * 2 ^ 17\<close> words and \<open>tracemb << (20 - 3)\<close> bytes are
  \<open>tracemb * 2 ^ 14\<close> words.
\<close>

definition do_reset :: "u64 \<Rightarrow> kstate \<Rightarrow> u64 \<times> kstate" where
  "do_reset flags s =
    (let ipc = (flags AND DO_IPC \<noteq> 0);
         high = tracebase s + tracemb s * 2 ^ 17;
         s1 = s\<lparr>kutrace_tracing := False,
                do_ipc := ipc,
                do_wrap := (flags AND DO_WRAP \<noteq> 0),
                kutrace_pid_filter := clear_pid_filter (kutrace_pid_filter s),
                traceblock_high := high,
                traceblock_limit := (if ipc then tracebase s + tracemb s * 2 ^ 14 else tracebase s),
                traceblock_next := high,
                did_wrap_around := False\<rparr>;
         s2 = fold reset_cpu (online_cpus s1) s1
     in (0, s2\<lparr>prior_block_init_counter := 0\<rparr>))"

section \<open>The claim allocator\<close>

fun memcpy_words :: "(ptr \<Rightarrow> u64) \<Rightarrow> ptr \<Rightarrow> u64 list \<Rightarrow> (ptr \<Rightarrow> u64)" where
  "memcpy_words m p [] = m"
| "memcpy_words m p (w # ws) = memcpy_words (m(p := w)) (p + 1) ws"

text \<open>
  \<open>initialize_trace_block\<close>: stamps the block at \<open>init_me\<close> and returns the first real entry
  slot. On RISC-V the counter-wrap constants are both zero. \<open>tb\<close> is the cursor of the
  calling CPU.
\<close>

definition initialize_trace_block :: "env \<Rightarrow> ptr \<Rightarrow> bool \<Rightarrow> kstate \<Rightarrow> ptr \<times> kstate" where
  "initialize_trace_block e init_me very_first_block s =
    (let c = (of_nat (cpu e) :: u64);
         bic0 = block_time e OR (prior_block_init_counter s AND kCounterWrapMask);
         block_init_counter =
           (if bic0 < prior_block_init_counter s then bic0 + kCounterWrapIncrease else bic0);
         m0 = (mem s)(init_me := (block_init_counter AND FULL_TIMESTAMP_MASK)
                                   OR push_bit CPU_NUMBER_SHIFT c);
         flags = (if do_ipc s then push_bit FLAGS_SHIFT IPC_Flag else 0)
                   OR (if do_wrap s then push_bit FLAGS_SHIFT WRAP_Flag else 0);
         m1 = m0(init_me + 1 := flags);
         m2 = (if very_first_block then memcpy_words m1 (init_me + 2) [0, 0, 0, 0, 0, 0] else m1);
         myclaim = (if very_first_block then init_me + 8 else init_me + 2);
         m3 = memcpy_words m2 myclaim [cur_pid e, 0, fst (cur_comm e), snd (cur_comm e)];
         m4 = memcpy_words m3 (init_me + KUTRACEBLOCKSIZEU64 - 8) [0, 0, 0, 0, 0, 0, 0, 0];
         s1 = s\<lparr>prior_block_init_counter := block_init_counter, mem := m4\<rparr>;
         s2 = (if prior_cycles (per_cpu s1 (cpu e)) = 0
               then set_tb (cpu e) (\<lambda>t. t\<lparr>prior_cycles := 1\<rparr>) s1 else s1)
     in (myclaim + 4, s2))"

text \<open>The tail of \<open>really_get_slow_claim\<close>, after the frontier has been settled: initialise
  the block at \<open>traceblock_next\<close> and point the CPU's cursor into it.\<close>

definition open_block :: "env \<Rightarrow> int \<Rightarrow> bool \<Rightarrow> kstate \<Rightarrow> ptr \<times> kstate" where
  "open_block e len very_first_block s =
    (let (myclaim, s1) = initialize_trace_block e (traceblock_next s) very_first_block s
     in (myclaim,
         set_tb (cpu e) (\<lambda>t. t\<lparr>tb_next := myclaim + len,
                                 tb_limit := traceblock_next s1 + KUTRACEBLOCKSIZEU64\<rparr>) s1))"

definition really_get_slow_claim :: "env \<Rightarrow> int \<Rightarrow> kstate \<Rightarrow> ptr \<times> kstate" where
  "really_get_slow_claim e len s =
    (let very_first_block = (traceblock_next s = traceblock_high s);
         s1 = s\<lparr>traceblock_next := traceblock_next s - KUTRACEBLOCKSIZEU64\<rparr>
     in if traceblock_next s1 < traceblock_limit s1
        then (if do_wrap s1
              then open_block e len very_first_block
                     (s1\<lparr>did_wrap_around := True,
                         traceblock_next := traceblock_high s1 - 2 * KUTRACEBLOCKSIZEU64,
                         kutrace_pid_filter := clear_pid_filter (kutrace_pid_filter s1)\<rparr>)
              else (0, s1\<lparr>kutrace_tracing := False\<rparr>))
        else open_block e len very_first_block s1)"

text \<open>\<open>ATOMIC_ADD_RETURN(len * sizeof(u64), &tb->next)\<close>: the cursor moves up by \<open>len\<close> words;
  the caller subtracts \<open>len\<close> again to get the prior value.\<close>

definition atomic_add_next :: "nat \<Rightarrow> int \<Rightarrow> kstate \<Rightarrow> kstate" where
  "atomic_add_next c len s = set_tb c (\<lambda>t. t\<lparr>tb_next := tb_next t + len\<rparr>) s"

definition get_slow_claim :: "env \<Rightarrow> int \<Rightarrow> kstate \<Rightarrow> ptr \<times> kstate" where
  "get_slow_claim e len s =
    (if is_bad_len len then (0, s\<lparr>kutrace_tracing := False\<rparr>)
     else
       let limit_item = tb_limit (per_cpu s (cpu e));
           s1 = atomic_add_next (cpu e) len s;
           myclaim = tb_next (per_cpu s1 (cpu e)) - len
       in if myclaim + len \<ge> limit_item \<or> limit_item = 0
          then really_get_slow_claim e len s1
          else (myclaim, s1))"

text \<open>
  One pass through the body of the \<open>do \<dots> while (true)\<close> loop of \<open>get_claim\<close>, with the
  interrupt \<open>before\<close> run between reading \<open>tb->limit\<close> and the atomic add, and \<open>after\<close> between
  the add and the re-read. The locals \<open>myclaim\<close> and \<open>limit_item_again\<close> are carried through
  the loop. The result says whether the loop goes round again.
\<close>

definition fast_iter ::
  "nat \<Rightarrow> int \<Rightarrow> irq \<Rightarrow> irq \<Rightarrow> ptr \<times> ptr \<Rightarrow> kstate \<Rightarrow> bool \<times> (ptr \<times> ptr) \<times> kstate" where
  "fast_iter c len before after locals s =
    (let limit_item = tb_limit (per_cpu s c)
     in if limit_item = 0 then (False, locals, s)
        else
          let s1 = atomic_add_next c len (before s);
              myclaim = tb_next (per_cpu s1 c) - len;
              s2 = after s1;
              limit_item_again = tb_limit (per_cpu s2 c)
          in if limit_item = limit_item_again then (False, (myclaim, limit_item_again), s2)
             else if myclaim < limit_item_again
                     \<and> limit_item_again - KUTRACEBLOCKSIZEU64 \<le> myclaim
             then (False, (myclaim, limit_item_again), s2)
             else (True, (myclaim, limit_item_again), s2))"

fun fast_loop ::
  "nat \<Rightarrow> int \<Rightarrow> (irq \<times> irq) list \<Rightarrow> ptr \<times> ptr \<Rightarrow> kstate \<Rightarrow> (ptr \<times> ptr) \<times> kstate" where
  "fast_loop c len [] locals s = snd (fast_iter c len id id locals s)"
| "fast_loop c len ((before, after) # irqs) locals s =
    (case fast_iter c len before after locals s of
       (True, locals', s') \<Rightarrow> fast_loop c len irqs locals' s'
     | (False, r) \<Rightarrow> r)"

definition get_claim :: "env \<Rightarrow> int \<Rightarrow> kstate \<Rightarrow> ptr \<times> kstate" where
  "get_claim e len s =
    (if is_bad_len len then (0, s\<lparr>kutrace_tracing := False\<rparr>)
     else
       let ((myclaim, limit_item_again), s1) = fast_loop (cpu e) len (loop_irqs e) (0, 0) s
       in if myclaim + len \<ge> limit_item_again
          then get_slow_claim e len (slow_irq e s1)
          else (myclaim, s1))"

definition get_prior :: "env \<Rightarrow> kstate \<Rightarrow> ptr" where
  "get_prior e s =
    (let next_item = tb_next (per_cpu s (cpu e));
         limit_item = tb_limit (per_cpu s (cpu e))
     in if next_item < limit_item then next_item - 1 else 0)"

section \<open>Inserting records\<close>

text \<open>
  The IPC side channel is a byte array over the same memory: the byte for the entry at
  \<open>claim\<close> is at byte address \<open>tracebase + (claim - (u64 * ) tracebase)\<close>, which is byte
  \<open>(claim - tracebase) mod 8\<close> (little-endian) of the word at
  \<open>tracebase + (claim - tracebase) div 8\<close>.
\<close>

definition ipc_byte_addr :: "kstate \<Rightarrow> ptr \<Rightarrow> ptr \<times> nat" where
  "ipc_byte_addr s claim =
    (let off = claim - tracebase s in (tracebase s + off div 8, nat (off mod 8)))"

definition load_u8 :: "(ptr \<Rightarrow> u64) \<Rightarrow> ptr \<times> nat \<Rightarrow> u8" where
  "load_u8 m a = ucast (drop_bit (8 * snd a) (m (fst a)))"

definition store_u8 :: "(ptr \<Rightarrow> u64) \<Rightarrow> ptr \<times> nat \<Rightarrow> u8 \<Rightarrow> (ptr \<Rightarrow> u64)" where
  "store_u8 m a v =
    m(fst a := (m (fst a) AND NOT (push_bit (8 * snd a) 0xFF)) OR push_bit (8 * snd a) (ucast v))"

text \<open>The IPC bookkeeping shared by \<open>insert_1\<close> and \<open>insert_1_retopt\<close>: the deltas since
  this CPU's last annotated event, bucketed, and the per-CPU priors brought up to date.\<close>

definition ipc_sample :: "env \<Rightarrow> kstate \<Rightarrow> (fault + u64) \<times> kstate" where
  "ipc_sample e s =
    (let tb = per_cpu s (cpu e);
         delta_cycles = now e - prior_cycles tb;
         delta_inst = inst_ret e - prior_inst_retired tb
     in (get_granular delta_inst delta_cycles,
         set_tb (cpu e) (\<lambda>t. t\<lparr>prior_cycles := now e, prior_inst_retired := inst_ret e\<rparr>) s))"

definition insert_1 :: "env \<Rightarrow> u64 \<Rightarrow> kstate \<Rightarrow> fault + (u64 \<times> kstate)" where
  "insert_1 e arg1 s =
    (let (claim, s1) = get_claim e 1 s
     in if claim \<noteq> 0
        then
          let s2 = s1\<lparr>mem := (mem s1)(claim := arg1 OR push_bit TIMESTAMP_SHIFT (now e))\<rparr>
          in if do_ipc s2
             then (case ipc_sample e s2 of
                     (Inl f, s3) \<Rightarrow> Inl f
                   | (Inr g, s3) \<Rightarrow>
                       Inr (1, s3\<lparr>mem := store_u8 (mem s3) (ipc_byte_addr s3 claim) (ucast g)\<rparr>))
             else Inr (1, s2)
        else Inr (0, s1))"

text \<open>The ``Combine'' block of \<open>insert_1_retopt\<close>: patch delta and retval into the prior
  word; no new word is claimed and 0 is returned.\<close>

definition combine :: "env \<Rightarrow> u64 \<Rightarrow> ptr \<Rightarrow> u64 \<Rightarrow> kstate \<Rightarrow> fault + (u64 \<times> kstate)" where
  "combine e arg1 prior_entry delta_t s =
    (let opt_ret = push_bit DELTA_SHIFT delta_t
                     OR push_bit RETVAL_SHIFT (arg1 AND UNSHIFTED_RETVAL_MASK);
         s1 = s\<lparr>mem := (mem s)(prior_entry := mem s prior_entry OR opt_ret)\<rparr>
     in if do_ipc s1
        then (case ipc_sample e s1 of
                (Inl f, s2) \<Rightarrow> Inl f
              | (Inr g, s2) \<Rightarrow>
                  let a = ipc_byte_addr s2 prior_entry
                  in Inr (0, s2\<lparr>mem := store_u8 (mem s2) a
                                           (load_u8 (mem s2) a OR ucast (push_bit 4 g))\<rparr>))
        else Inr (0, s1))"

definition insert_1_retopt :: "env \<Rightarrow> u64 \<Rightarrow> kstate \<Rightarrow> fault + (u64 \<times> kstate)" where
  "insert_1_retopt e arg1 s =
    (let prior_entry = get_prior e s
     in if prior_entry \<noteq> 0
        then
          let diff = (mem s prior_entry XOR arg1) AND EVENT_DELTA_RETVAL_MASK;
              prior_t = drop_bit TIMESTAMP_SHIFT (mem s prior_entry);
              delta_t0 = (now e - prior_t) AND UNSHIFTED_TIMESTAMP_MASK;
              delta_t = (if delta_t0 = 0 then 1 else delta_t0)
          in if diff = EVENT_RETURN_BIT \<and> delta_t \<le> MAX_DELTA_VALUE
             then combine e arg1 prior_entry delta_t s
             else insert_1 e arg1 s
        else insert_1 e arg1 s)"

text \<open>\<open>insert_n_krnl\<close>: \<open>krnl\<close> is the kernel array that the argument points to.\<close>

definition insert_n_krnl :: "env \<Rightarrow> (nat \<Rightarrow> u64) \<Rightarrow> kstate \<Rightarrow> u64 \<times> kstate" where
  "insert_n_krnl e krnl s =
    (let len = entry_len (krnl 0)
     in if is_bad_len (u64_to_int len) then (0, s\<lparr>kutrace_tracing := False\<rparr>)
        else
          let (claim, s1) = get_claim e (u64_to_int len) s
          in if claim \<noteq> 0
             then (len,
                   s1\<lparr>mem := memcpy_words
                              ((mem s1)(claim := krnl 0 OR push_bit TIMESTAMP_SHIFT (now e)))
                              (claim + 1) (map krnl [1 ..< unat len])\<rparr>)
             else (0, s1))"

text \<open>\<open>insert_n_user\<close>: \<open>word\<close> is the user address; the copy of eight words from it either
  succeeds or leaves bytes uncopied, and then nothing is inserted.\<close>

definition insert_n_user :: "env \<Rightarrow> u64 \<Rightarrow> kstate \<Rightarrow> u64 \<times> kstate" where
  "insert_n_user e word s =
    (case user_mem e word of
       None \<Rightarrow> (0, s)
     | Some temp \<Rightarrow>
         let len = entry_len (temp 0)
         in if is_bad_len (u64_to_int len) then (0, s\<lparr>kutrace_tracing := False\<rparr>)
            else
              let (claim, s1) = get_claim e (u64_to_int len) s
              in if claim \<noteq> 0
                 then (len,
                       s1\<lparr>mem := memcpy_words (mem s1) claim
                                  (map (temp(0 := temp 0 OR push_bit TIMESTAMP_SHIFT (now e)))
                                     [0 ..< unat len])\<rparr>)
                 else (0, s1))"

definition trace_1 :: "env \<Rightarrow> u64 \<Rightarrow> u64 \<Rightarrow> kstate \<Rightarrow> fault + kstate" where
  "trace_1 e event arg s =
    (if \<not> kutrace_tracing s then Inr s
     else
       let event_arg = push_bit EVENT_SHIFT event OR (arg AND 0xffffffff)
       in if event AND UNSHIFTED_EVENT_RETURN_BIT \<noteq> 0
             \<and> event AND UNSHIFTED_EVENT_HAS_RETURN_MASK \<noteq> 0
          then (if (arg + 128) AND NOT UNSHIFTED_RETVAL_MASK = 0
                then map_sum id snd (insert_1_retopt e event_arg s)
                else map_sum id snd (insert_1 e event_arg s))
          else map_sum id snd (insert_1 e event_arg s))"

section \<open>The control call\<close>

text \<open>
  Modelled from the spec: the command codes \<open>KUTRACE_CMD_*\<close> that \<open>kutrace_control\<close> compares
  its first argument with are declared in \<open>include/linux/kutrace.h\<close>, which is not among the
  sources. The commands are the ones the spec lists (OFF, ON, FLUSH, RESET, STAT, GETCOUNT,
  GETWORD, GETIPCWORD, INSERT1, INSERTN, TEST, VERSION); the two bit-inverted codes that
  insert with tracing off are \<open>CMD_FORCE_INSERT1\<close> and \<open>CMD_FORCE_INSERTN\<close>, and every other
  value is \<open>CMD_UNKNOWN\<close>.
\<close>

datatype command =
  CMD_OFF | CMD_ON | CMD_FLUSH | CMD_RESET | CMD_STAT | CMD_GETCOUNT | CMD_GETWORD
| CMD_GETIPCWORD | CMD_INSERT1 | CMD_INSERTN | CMD_TEST | CMD_VERSION
| CMD_FORCE_INSERT1 | CMD_FORCE_INSERTN | CMD_UNKNOWN

fun kutrace_dispatch :: "env \<Rightarrow> command \<Rightarrow> u64 \<Rightarrow> kstate \<Rightarrow> fault + (u64 \<times> kstate)" where
  "kutrace_dispatch e CMD_OFF arg s = Inr (do_trace_off s)"
| "kutrace_dispatch e CMD_ON arg s = Inr (do_trace_on s)"
| "kutrace_dispatch e CMD_FLUSH arg s = Inr (do_flush s)"
| "kutrace_dispatch e CMD_RESET arg s = Inr (do_reset arg s)"
| "kutrace_dispatch e CMD_STAT arg s = Inr (do_stat s, s)"
| "kutrace_dispatch e CMD_GETCOUNT arg s =
    (if did_wrap_around s
     then (let (count, s') = get_count s in Inr (NOT count, s'))
     else Inr (get_count s))"
| "kutrace_dispatch e CMD_GETWORD arg s = Inr (get_word arg s)"
| "kutrace_dispatch e CMD_GETIPCWORD arg s = Inr (get_ipc_word arg s)"
| "kutrace_dispatch e CMD_INSERT1 arg s =
    (if \<not> kutrace_tracing s then Inr (0, s) else insert_1 e arg s)"
| "kutrace_dispatch e CMD_INSERTN arg s =
    (if \<not> kutrace_tracing s then Inr (0, s) else Inr (insert_n_user e arg s))"
| "kutrace_dispatch e CMD_TEST arg s = Inr (if kutrace_tracing s then 1 else 0, s)"
| "kutrace_dispatch e CMD_VERSION arg s = Inr (kModuleVersionNumber, s)"
| "kutrace_dispatch e CMD_FORCE_INSERT1 arg s = insert_1 e arg s"
| "kutrace_dispatch e CMD_FORCE_INSERTN arg s = Inr (insert_n_user e arg s)"
| "kutrace_dispatch e CMD_UNKNOWN arg s = Inr (NOT 0, s)"

definition kutrace_control :: "env \<Rightarrow> command \<Rightarrow> u64 \<Rightarrow> kstate \<Rightarrow> fault + (u64 \<times> kstate)" where
  "kutrace_control e command arg s =
    (if tracebase s = 0 then Inr (NOT 0, s\<lparr>kutrace_tracing := False\<rparr>)
     else kutrace_dispatch e command arg s)"

section \<open>Module initialisation and helpers for stating properties\<close>

text \<open>
  \<open>kutrace_mod_init\<close>, as far as the tracer state goes: the globals start at zero, the two
  \<open>vmalloc\<close>s succeed (\<open>base\<close> is the address of the trace memory, \<open>m0\<close> what it holds),
  \<open>mb\<close> is the module parameter \<open>tracemb\<close>, and \<open>do_reset(0)\<close> runs.
\<close>

definition kutrace_mod_init :: "ptr \<Rightarrow> int \<Rightarrow> nat list \<Rightarrow> (ptr \<Rightarrow> u64) \<Rightarrow> kstate" where
  "kutrace_mod_init base mb cpus m0 =
    snd (do_reset 0
      \<lparr>kutrace_tracing = False, do_ipc = False, do_wrap = False, tracemb = mb,
       tracebase = base, traceblock_high = 0, traceblock_limit = 0, traceblock_next = 0,
       did_wrap_around = False, prior_block_init_counter = 0,
       kutrace_pid_filter = (\<lambda>_. 0), mem = m0,
       per_cpu = (\<lambda>_. \<lparr>tb_next = 0, tb_limit = 0, prior_cycles = 0, prior_inst_retired = 0\<rparr>),
       online_cpus = cpus\<rparr>)"

text \<open>A call on CPU \<open>c\<close> at time \<open>t\<close> that no interrupt disturbs, made by task \<open>pid\<close>.\<close>

definition quiet_env :: "nat \<Rightarrow> u64 \<Rightarrow> env" where
  "quiet_env c t =
    \<lparr>cpu = c, now = t, block_time = t, inst_ret = 0, cur_pid = 1,
     cur_comm = (0x74696e69, 0), loop_irqs = [], slow_irq = id, user_mem = (\<lambda>_. None)\<rparr>"

text \<open>The 12-bit event code of a word, as \<open>entry_len\<close> extracts it.\<close>

definition event_field :: "u64 \<Rightarrow> u64" where
  "event_field word = drop_bit EVENT_SHIFT word AND UNSHIFTED_EVENT_MASK"

text \<open>A CPU whose cursor a flush leaves alone: it has no block, or its block is full.\<close>

definition settled :: "nat \<Rightarrow> kstate \<Rightarrow> bool" where
  "settled c s \<longleftrightarrow> tb_next (per_cpu s c) = 0 \<or> tb_limit (per_cpu s c) = 0
           \<or> tb_next (per_cpu s c) = tb_limit (per_cpu s c)"

text \<open>A same-CPU interrupt that inserts nothing but claims one record of \<open>len\<close> words on
  CPU \<open>c\<close> at time \<open>t\<close>, itself undisturbed.\<close>

definition nested_claim :: "nat \<Rightarrow> u64 \<Rightarrow> int \<Rightarrow> irq" where
  "nested_claim c t len = (\<lambda>s. snd (get_claim (quiet_env c t) len s))"

text \<open>A tracer whose CPU 0 owns the topmost block of a 2 MiB arena at \<open>0x100000\<close>, with two
  free words left in that block.\<close>

definition nearly_full :: kstate where
  "nearly_full =
    (kutrace_mod_init 0x100000 2 [0] (\<lambda>_. 0))
      \<lparr>kutrace_tracing := True,
       traceblock_next := 0x13E000,
       per_cpu := (\<lambda>_. \<lparr>tb_next = 0x13FFFE, tb_limit = 0x140000,
                          prior_cycles = 1, prior_inst_retired = 0\<rparr>)\<rparr>"

section \<open>Well-formed arenas and cursors\<close>

text \<open>
  The arena is well formed when it lies above \<open>NULL\<close>, holds at least two whole blocks
  counted down from \<open>traceblock_high\<close>, and the frontier is on a block boundary at or below \<open>traceblock_high\<close>
  (it may be below \<open>traceblock_limit\<close> once the arena is full).
\<close>

definition arena_ok :: "kstate \<Rightarrow> bool" where
  "arena_ok s \<longleftrightarrow>
     0 < traceblock_limit s
   \<and> traceblock_limit s + 2 * KUTRACEBLOCKSIZEU64 \<le> traceblock_high s
   \<and> KUTRACEBLOCKSIZEU64 dvd (traceblock_high s - traceblock_limit s)
   \<and> traceblock_next s \<le> traceblock_high s
   \<and> KUTRACEBLOCKSIZEU64 dvd (traceblock_high s - traceblock_next s)"

text \<open>The cursor of CPU \<open>c\<close> is well formed when it has no block yet (\<open>limit\<close> is \<open>NULL\<close>), or
  \<open>limit\<close> is the end of a block of the arena and \<open>next\<close> is not below that block's start
  (it may be past its end: the fast path adds before it checks).\<close>

definition cursor_ok :: "nat \<Rightarrow> kstate \<Rightarrow> bool" where
  "cursor_ok c s \<longleftrightarrow>
     tb_limit (per_cpu s c) = 0
   \<or> (traceblock_limit s + KUTRACEBLOCKSIZEU64 \<le> tb_limit (per_cpu s c)
      \<and> tb_limit (per_cpu s c) \<le> traceblock_high s
      \<and> KUTRACEBLOCKSIZEU64 dvd (traceblock_high s - tb_limit (per_cpu s c))
      \<and> tb_limit (per_cpu s c) - KUTRACEBLOCKSIZEU64 \<le> tb_next (per_cpu s c))"

definition state_inv :: "nat \<Rightarrow> kstate \<Rightarrow> bool" where
  "state_inv c s \<longleftrightarrow> arena_ok s \<and> cursor_ok c s"

text \<open>
  What is asked of a same-CPU interrupt: it keeps arena and cursor well formed, leaves the
  ends of the arena alone, and does not take the CPU's block away (only Reset and module
  exit set \<open>limit\<close> to \<open>NULL\<close>).
\<close>

definition irq_ok :: "nat \<Rightarrow> irq \<Rightarrow> bool" where
  "irq_ok c f \<longleftrightarrow>
    (\<forall>s. state_inv c s \<longrightarrow>
       state_inv c (f s)
     \<and> traceblock_high (f s) = traceblock_high s
     \<and> traceblock_limit (f s) = traceblock_limit s
     \<and> (tb_limit (per_cpu s c) \<noteq> 0 \<longrightarrow> tb_limit (per_cpu (f s) c) \<noteq> 0))"

text \<open>
  The two interrupts of one pass do not bring the CPU's limit back to a value it had left:
  if the limit re-read after the pass equals the limit read at its top, the limit was that
  value at the atomic add as well.
\<close>

definition no_aba :: "nat \<Rightarrow> int \<Rightarrow> irq \<Rightarrow> irq \<Rightarrow> bool" where
  "no_aba c len before after \<longleftrightarrow>
    (\<forall>s. state_inv c s \<longrightarrow>
       tb_limit (per_cpu (after (atomic_add_next c len (before s))) c) = tb_limit (per_cpu s c) \<longrightarrow>
       tb_limit (per_cpu (before s) c) = tb_limit (per_cpu s c))"

definition env_ok :: "env \<Rightarrow> int \<Rightarrow> bool" where
  "env_ok e len \<longleftrightarrow>
    (\<forall>(before, after) \<in> set (loop_irqs e).
        irq_ok (cpu e) before \<and> irq_ok (cpu e) after \<and> no_aba (cpu e) len before after)
    \<and> irq_ok (cpu e) (slow_irq e)"

text \<open>
  The \<open>len\<close> words at \<open>p\<close> lie in the arena and in one block of it: blocks are counted down
  from \<open>traceblock_high\<close>, and the first and the last word have the same block number.
\<close>

definition block_number :: "kstate \<Rightarrow> ptr \<Rightarrow> int" where
  "block_number s p = (traceblock_high s - 1 - p) div KUTRACEBLOCKSIZEU64"

definition within_one_block :: "kstate \<Rightarrow> ptr \<Rightarrow> int \<Rightarrow> bool" where
  "within_one_block s p len \<longleftrightarrow>
     traceblock_limit s \<le> p \<and> p + len \<le> traceblock_high s
   \<and> block_number s p = block_number s (p + len - 1)"

text \<open>\<open>ag\<close> is the end of a block of the arena.\<close>

definition block_limit :: "kstate \<Rightarrow> ptr \<Rightarrow> bool" where
  "block_limit s ag \<longleftrightarrow> traceblock_limit s + KUTRACEBLOCKSIZEU64 \<le> ag
     \<and> ag \<le> traceblock_high s \<and> KUTRACEBLOCKSIZEU64 dvd (traceblock_high s - ag)"

section \<open>The cursor fields, and a session that wraps\<close>

text \<open>
  The fields that the allocator reads and writes, seen from CPU \<open>c\<close>: the two ends of the
  arena, the wrap flag, the frontier \<open>traceblock_next\<close>, and the CPU's \<open>next\<close> and \<open>limit\<close>.
\<close>

type_synonym alloc = "ptr \<times> ptr \<times> bool \<times> ptr \<times> ptr \<times> ptr"

definition alloc_view :: "nat \<Rightarrow> kstate \<Rightarrow> alloc" where
  "alloc_view c s =
    (traceblock_high s, traceblock_limit s, do_wrap s, traceblock_next s,
     tb_next (per_cpu s c), tb_limit (per_cpu s c))"

text \<open>
  What an undisturbed \<open>get_claim\<close> of \<open>len\<close> words (\<open>1..8\<close>) does to these fields; lemma
  \<open>nested_claim_view\<close> derives it from \<open>get_claim\<close>. The fast path moves the cursor; else a
  block is opened at the frontier, after a wrap at \<open>high - 2 * KUTRACEBLOCKSIZEU64\<close>; else
  the arena is full and the cursor keeps the one or two adds made on the way.
\<close>

fun claim_view :: "int \<Rightarrow> alloc \<Rightarrow> alloc" where
  "claim_view len (high, limit, wrap, frontier, next_item, limit_item) =
    (if limit_item \<noteq> 0 \<and> next_item + len < limit_item
     then (high, limit, wrap, frontier, next_item + len, limit_item)
     else if limit \<le> frontier - KUTRACEBLOCKSIZEU64
     then (high, limit, wrap, frontier - KUTRACEBLOCKSIZEU64,
           frontier - KUTRACEBLOCKSIZEU64 + (if frontier = high then 12 else 6) + len,
           frontier)
     else if wrap
     then (high, limit, wrap, high - 2 * KUTRACEBLOCKSIZEU64,
           high - 2 * KUTRACEBLOCKSIZEU64 + (if frontier = high then 12 else 6) + len,
           high - KUTRACEBLOCKSIZEU64)
     else (high, limit, wrap, frontier - KUTRACEBLOCKSIZEU64,
           next_item + len + (if limit_item = 0 then 0 else len), limit_item))"

text \<open>Interrupts on CPU 0 that between them claim \<open>n\<close> records of eight words, one after
  the other, each undisturbed.\<close>

definition busy_irq :: "nat \<Rightarrow> irq" where
  "busy_irq n = nested_claim 0 6 8 ^^ n"

text \<open>
  A session in wrap mode on a 1 MiB arena (16 blocks) at \<open>0x100000\<close>: the module is loaded,
  Reset is called with the flag \<open>DO_WRAP\<close>, and CPU 0 claims 1023 records of eight words.
  These fill block 0 and open block 1.
\<close>

definition block1_open :: kstate where
  "block1_open =
    busy_irq 1023 (snd (do_reset DO_WRAP (kutrace_mod_init 0x100000 1 [0] (\<lambda>_. 0))))"

section \<open>The call/return merge: names for stating it\<close>



definition prior_slot :: "env \<Rightarrow> kstate \<Rightarrow> ptr" where
  "prior_slot e s = tb_next (per_cpu s (cpu e)) - 1"

text \<open>The elapsed ticks since the prior word's 20-bit timestamp, a zero forced to 1.\<close>

definition elapsed_ticks :: "env \<Rightarrow> u64 \<Rightarrow> u64" where
  "elapsed_ticks e prior =
    (let d = (now e - drop_bit TIMESTAMP_SHIFT prior) AND UNSHIFTED_TIMESTAMP_MASK
     in if d = 0 then 1 else d)"

text \<open>
  The merge condition in the words of the specification: a prior entry exists (cursor
  \<open>next < limit\<close>), the two event codes differ exactly in the return bit, the elapsed tick
  delta (zero forced to 1) is at most 255, and the return value plus 128 has no bit outside
  the low byte.
\<close>

definition spec_merge_cond :: "env \<Rightarrow> u64 \<Rightarrow> u64 \<Rightarrow> kstate \<Rightarrow> bool" where
  "spec_merge_cond e event arg s \<longleftrightarrow>
     tb_next (per_cpu s (cpu e)) < tb_limit (per_cpu s (cpu e))
   \<and> event_field (mem s (prior_slot e s)) XOR (event AND UNSHIFTED_EVENT_MASK)
       = UNSHIFTED_EVENT_RETURN_BIT
   \<and> elapsed_ticks e (mem s (prior_slot e s)) \<le> 255
   \<and> (arg + 128) AND NOT UNSHIFTED_RETVAL_MASK = 0"


text \<open>A running tracer on the 2 MiB arena at \<open>0x100000\<close> whose CPU 0 has just recorded the
  word \<open>w\<close> as the 13th word of the topmost block.\<close>

definition just_recorded :: "u64 \<Rightarrow> kstate" where
  "just_recorded w =
    (kutrace_mod_init 0x100000 2 [0] (\<lambda>_. 0))
      \<lparr>kutrace_tracing := True,
       traceblock_next := 0x13E000,
       mem := (\<lambda>_. 0)(0x13E00C := w),
       per_cpu := (\<lambda>_. \<lparr>tb_next = 0x13E00D, tb_limit = 0x140000,
                          prior_cycles = 1, prior_inst_retired = 0\<rparr>)\<rparr>"

text \<open>What a test looks at after a \<open>trace_1\<close> on CPU 0 of that tracer: the cursor, the word
  recorded before and the word at the old cursor.\<close>

definition observe :: "fault + kstate \<Rightarrow> fault + (ptr \<times> u64 \<times> u64)" where
  "observe r = map_sum id (\<lambda>s. (tb_next (per_cpu s 0), mem s 0x13E00C, mem s 0x13E00D)) r"

section \<open>The ten-inserts scenario\<close>

text \<open>A sequence of control calls, each with its own surroundings; the results are dropped,
  and a fault stops the run.\<close>

fun control_seq :: "(env \<times> command \<times> u64) list \<Rightarrow> kstate \<Rightarrow> fault + kstate" where
  "control_seq [] s = Inr s"
| "control_seq ((e, cmd, arg) # rest) s =
    (case kutrace_control e cmd arg s of
       Inl f \<Rightarrow> Inl f
     | Inr (r, s') \<Rightarrow> control_seq rest s')"

text \<open>
  The module is loaded with the default 2 MiB of trace memory at \<open>base\<close>; then Reset with
  flags 0, one single-word insert on CPU 0 for each (time, word) pair of \<open>tws\<close>, made with the
  command \<open>ins\<close>, then Off, then Flush.
\<close>

definition inserts_scenario ::
  "command \<Rightarrow> ptr \<Rightarrow> (ptr \<Rightarrow> u64) \<Rightarrow> (u64 \<times> u64) list \<Rightarrow> fault + kstate" where
  "inserts_scenario ins base m0 tws =
    control_seq
      ([(quiet_env 0 0, CMD_RESET, 0)]
       @ map (\<lambda>(t, w). (quiet_env 0 t, ins, w)) tws
       @ [(quiet_env 0 0, CMD_OFF, 0), (quiet_env 0 0, CMD_FLUSH, 0)])
      (kutrace_mod_init base 2 [0] m0)"

text \<open>The value a control call returns in the state a run ended in.\<close>

definition query :: "command \<Rightarrow> u64 \<Rightarrow> fault + kstate \<Rightarrow> fault + u64" where
  "query cmd arg r =
    (case r of
       Inl f \<Rightarrow> Inl f
     | Inr s \<Rightarrow> map_sum id fst (kutrace_control (quiet_env 0 0) cmd arg s))"

text \<open>The word that \<open>insert_1\<close> stores for a (time, word) pair.\<close>

definition stamped :: "u64 \<times> u64 \<Rightarrow> u64" where
  "stamped tw = snd tw OR push_bit TIMESTAMP_SHIFT (fst tw)"

text \<open>
  The shape of the tracer while the scenario inserts: CPU 0 owns the topmost block of the
  arena, which is the only block opened; its header is in place and the words \<open>ws\<close> follow
  the twelve header words.
\<close>

definition first_block_holds :: "ptr \<Rightarrow> u64 \<Rightarrow> u64 list \<Rightarrow> kstate \<Rightarrow> bool" where
  "first_block_holds base hdr ws s \<longleftrightarrow>
     tracebase s = base \<and> \<not> do_ipc s \<and> \<not> did_wrap_around s
   \<and> traceblock_high s = base + 262144 \<and> traceblock_limit s = base
   \<and> traceblock_next s = base + 253952 \<and> online_cpus s = [0]
   \<and> tb_limit (per_cpu s 0) = base + 262144
   \<and> tb_next (per_cpu s 0) = base + 253964 + int (length ws)
   \<and> mem s (base + 253952) = hdr
   \<and> mem s (base + 253961) = 0
   \<and> mem s (base + 253962) = 0x74696e69
   \<and> (\<forall>i < length ws. mem s (base + 253964 + int i) = ws ! i)"

text \<open>Ten single-word events (event code \<open>0x200\<close>, arguments 1 to 10) at times 1 to 10.\<close>

definition ten_words :: "(u64 \<times> u64) list" where
  "ten_words =
    [(1, 0x0000020000000001), (2, 0x0000020000000002), (3, 0x0000020000000003),
     (4, 0x0000020000000004), (5, 0x0000020000000005), (6, 0x0000020000000006),
     (7, 0x0000020000000007), (8, 0x0000020000000008), (9, 0x0000020000000009),
     (10, 0x000002000000000A)]"

section \<open>Unfolding the field constants\<close>

lemmas field_consts =
  RETVAL_MASK_def DELTA_MASK_def EVENT_MASK_def EVENT_DELTA_RETVAL_MASK_def
  EVENT_RETURN_BIT_def EVENT_LENGTH_FIELD_MASK_def UNSHIFTED_RETVAL_MASK_def
  UNSHIFTED_EVENT_MASK_def UNSHIFTED_TIMESTAMP_MASK_def UNSHIFTED_EVENT_RETURN_BIT_def
  UNSHIFTED_EVENT_HAS_RETURN_MASK_def MIN_EVENT_WITH_LENGTH_def MAX_EVENT_WITH_LENGTH_def
  MAX_DELTA_VALUE_def RETVAL_SHIFT_def DELTA_SHIFT_def EVENT_SHIFT_def TIMESTAMP_SHIFT_def
  EVENT_LENGTH_FIELD_SHIFT_def

section \<open>Record lengths and the length check of the multi-word inserts\<close>

lemma u64_to_int_small: assumes "w \<le> 15" shows "u64_to_int w = uint w"
proof -
  have a: "uint w \<le> 15" using assms by (simp add: word_le_def)
  have b: "uint (ucast w :: u32) = uint w"
    using a by (simp add: unsigned_ucast_eq take_bit_int_eq_self)
  have "sint (ucast w :: u32) = signed_take_bit 31 (uint (ucast w :: u32))"
    by (simp add: sint_uint)
  also have "\<dots> = uint w"
  proof -
    have "0 \<le> uint w" by simp
    then have "- (2 ^ 31) \<le> uint w" by (simp add: order_trans[of _ 0])
    moreover have "uint w < 2 ^ 31" using a by simp
    ultimately show ?thesis
      unfolding b by (rule signed_take_bit_int_eq_self)
  qed
  finally show ?thesis by (simp add: u64_to_int_def)
qed

lemma entry_len_le_15: "entry_len w \<le> 15"
  by (simp add: entry_len_def Let_def field_consts word_and_le1)

lemma bad_entry_len_iff:
  "is_bad_len (u64_to_int (entry_len w)) \<longleftrightarrow> entry_len w < 1 \<or> 8 < entry_len w"
  by (simp add: u64_to_int_small[OF entry_len_le_15] is_bad_len_def word_less_def)

lemma middle_nibble_0x10:
  fixes n :: u64 assumes "0x100 \<le> n" "n \<le> 0x10F" shows "drop_bit 4 n AND 0xF = 0"
proof -
  have a: "256 \<le> unat n" "unat n \<le> 271" using assms by (simp_all add: word_le_nat_alt)
  have "unat (drop_bit 4 n) = drop_bit 4 (unat n)" by (rule unat_drop_bit_eq)
  also have "\<dots> = unat n div 16" by (simp add: drop_bit_eq_div)
  also have "\<dots> = 16" using a by auto
  finally have "drop_bit 4 n = 16" by (simp add: word_unat_eq_iff)
  then show ?thesis by simp
qed

lemma middle_nibble_0x1F:
  fixes n :: u64 assumes "0x1F0 \<le> n" "n \<le> 0x1FF" shows "drop_bit 4 n AND 0xF = 15"
proof -
  have a: "496 \<le> unat n" "unat n \<le> 511" using assms by (simp_all add: word_le_nat_alt)
  have "unat (drop_bit 4 n) = drop_bit 4 (unat n)" by (rule unat_drop_bit_eq)
  also have "\<dots> = unat n div 16" by (simp add: drop_bit_eq_div)
  also have "\<dots> = 31" using a by auto
  finally have "drop_bit 4 n = 31" by (simp add: word_unat_eq_iff)
  then show ?thesis by simp
qed

lemma entry_len_in_range:
  assumes "0x010 \<le> event_field w" "event_field w \<le> 0x1FF"
  shows "entry_len w = drop_bit 4 (event_field w) AND 0xF"
  using assms by (auto simp: entry_len_def event_field_def Let_def field_consts)

lemma insert_n_krnl_bad:
  "is_bad_len (u64_to_int (entry_len (krnl 0))) \<Longrightarrow>
   insert_n_krnl e krnl s = (0, s\<lparr>kutrace_tracing := False\<rparr>)"
  by (simp add: insert_n_krnl_def)

lemma insert_n_user_bad:
  "user_mem e a = Some temp \<Longrightarrow> is_bad_len (u64_to_int (entry_len (temp 0))) \<Longrightarrow>
   insert_n_user e a s = (0, s\<lparr>kutrace_tracing := False\<rparr>)"
  by (simp add: insert_n_user_def)

text \<open>
  Claim C10. For a word whose 12-bit event field \<open>n\<close> lies in \<open>[0x010, 0x1FF]\<close>, \<open>entry_len\<close>
  returns the middle nibble \<open>(n >> 4) & 0xF\<close>; that is 0 for the codes \<open>0x100\<close>--\<open>0x10F\<close> and 15
  for \<open>0x1F0\<close>--\<open>0x1FF\<close>, outside \<open>1..8\<close>. When the result is outside \<open>1..8\<close>,
  \<open>insert_n_krnl\<close> (on an array starting with the word) and \<open>insert_n_user\<close> (after a successful
  copy of such an array) turn tracing off and return 0, and change nothing else.
\<close>

theorem entry_len_out_of_range_drops_insert:
  assumes "0x010 \<le> event_field w" and "event_field w \<le> 0x1FF"
  shows "entry_len w = drop_bit 4 (event_field w) AND 0xF
       \<and> (0x100 \<le> event_field w \<and> event_field w \<le> 0x10F \<longrightarrow> entry_len w = 0)
       \<and> (0x1F0 \<le> event_field w \<longrightarrow> entry_len w = 15)
       \<and> (entry_len w < 1 \<or> 8 < entry_len w \<longrightarrow>
            (krnl 0 = w \<longrightarrow> insert_n_krnl e krnl s = (0, s\<lparr>kutrace_tracing := False\<rparr>))
          \<and> (user_mem e a = Some temp \<and> temp 0 = w \<longrightarrow>
                insert_n_user e a s = (0, s\<lparr>kutrace_tracing := False\<rparr>)))"
proof (intro conjI impI)
  show l: "entry_len w = drop_bit 4 (event_field w) AND 0xF"
    by (rule entry_len_in_range[OF assms])
  show "entry_len w = 0" if "0x100 \<le> event_field w \<and> event_field w \<le> 0x10F"
    using that middle_nibble_0x10 l by simp
  show "entry_len w = 15" if "0x1F0 \<le> event_field w"
    using that assms(2) middle_nibble_0x1F l by simp
  show "insert_n_krnl e krnl s = (0, s\<lparr>kutrace_tracing := False\<rparr>)"
    if "entry_len w < 1 \<or> 8 < entry_len w" "krnl 0 = w"
    using that by (simp add: insert_n_krnl_bad bad_entry_len_iff)
  show "insert_n_user e a s = (0, s\<lparr>kutrace_tracing := False\<rparr>)"
    if "entry_len w < 1 \<or> 8 < entry_len w" "user_mem e a = Some temp \<and> temp 0 = w"
    using that by (simp add: insert_n_user_bad bad_entry_len_iff)
qed

lemma event_field_0x100: "event_field 0x0000010000000000 = 0x100"
  by (simp add: event_field_def field_consts)

theorem entry_len_out_of_range_drops_insert_witness:
  "(0x010 :: u64) \<le> event_field 0x0000010000000000 \<and> event_field 0x0000010000000000 \<le> 0x1FF
   \<and> entry_len 0x0000010000000000 = 0
   \<and> insert_n_krnl ((quiet_env 0 5)\<lparr>user_mem := (\<lambda>_. Some (\<lambda>_. 0x0000010000000000))\<rparr>)
        (\<lambda>_. 0x0000010000000000)
        ((kutrace_mod_init 0x100000 2 [0] (\<lambda>_. 0))\<lparr>kutrace_tracing := True\<rparr>)
      = (0, (kutrace_mod_init 0x100000 2 [0] (\<lambda>_. 0))\<lparr>kutrace_tracing := False\<rparr>)
   \<and> insert_n_user ((quiet_env 0 5)\<lparr>user_mem := (\<lambda>_. Some (\<lambda>_. 0x0000010000000000))\<rparr>) 0
        ((kutrace_mod_init 0x100000 2 [0] (\<lambda>_. 0))\<lparr>kutrace_tracing := True\<rparr>)
      = (0, (kutrace_mod_init 0x100000 2 [0] (\<lambda>_. 0))\<lparr>kutrace_tracing := False\<rparr>)"
  using entry_len_out_of_range_drops_insert[where w = "0x0000010000000000"
      and krnl = "\<lambda>_. 0x0000010000000000"
      and e = "(quiet_env 0 5)\<lparr>user_mem := (\<lambda>_. Some (\<lambda>_. 0x0000010000000000))\<rparr>"
      and a = 0 and temp = "\<lambda>_. 0x0000010000000000"
      and s = "(kutrace_mod_init 0x100000 2 [0] (\<lambda>_. 0))\<lparr>kutrace_tracing := True\<rparr>"]
  by (simp add: event_field_0x100)

section \<open>The IPC bucket\<close>

lemma get_granular_guard: "get_granular di 0 = Inr 0" "get_granular di 1 = Inr 0"
  by (simp_all add: get_granular_def)

lemma get_granular_fault_iff:
  "get_granular di dc = Inl Div_by_zero
     \<longleftrightarrow> dc AND NOT 1 \<noteq> 0 \<and> (ucast (dc * 150) :: u32) = 0"
  by (simp add: get_granular_def Let_def)

text \<open>
  Claim C9 says that \<open>get_granular\<close> never divides by zero, whatever its two inputs. The guard
  looks at the 64-bit \<open>delta_cycles\<close>, the divisor is the low 32 bits of \<open>delta_cycles * 150\<close>:
  at \<open>delta_cycles = 2^31\<close> the guard lets the call through and the divisor is 0.
\<close>

theorem get_granular_divides_by_zero:
  "get_granular 0 0x80000000 = Inl Div_by_zero"
  by (simp add: get_granular_def)

section \<open>Frame lemmas\<close>

lemma set_tb_fields [simp]:
  "kutrace_tracing (set_tb c f s) = kutrace_tracing s"
  "do_ipc (set_tb c f s) = do_ipc s"
  "do_wrap (set_tb c f s) = do_wrap s"
  "tracemb (set_tb c f s) = tracemb s"
  "tracebase (set_tb c f s) = tracebase s"
  "traceblock_high (set_tb c f s) = traceblock_high s"
  "traceblock_limit (set_tb c f s) = traceblock_limit s"
  "traceblock_next (set_tb c f s) = traceblock_next s"
  "did_wrap_around (set_tb c f s) = did_wrap_around s"
  "prior_block_init_counter (set_tb c f s) = prior_block_init_counter s"
  "kutrace_pid_filter (set_tb c f s) = kutrace_pid_filter s"
  "mem (set_tb c f s) = mem s"
  "online_cpus (set_tb c f s) = online_cpus s"
  "per_cpu (set_tb c f s) = (per_cpu s)(c := f (per_cpu s c))"
  by (simp_all add: set_tb_def)

lemma fold_reset_cpu_fields [simp]:
  "kutrace_tracing (fold reset_cpu cs s) = kutrace_tracing s"
  "do_ipc (fold reset_cpu cs s) = do_ipc s"
  "do_wrap (fold reset_cpu cs s) = do_wrap s"
  "tracemb (fold reset_cpu cs s) = tracemb s"
  "tracebase (fold reset_cpu cs s) = tracebase s"
  "traceblock_high (fold reset_cpu cs s) = traceblock_high s"
  "traceblock_limit (fold reset_cpu cs s) = traceblock_limit s"
  "traceblock_next (fold reset_cpu cs s) = traceblock_next s"
  "did_wrap_around (fold reset_cpu cs s) = did_wrap_around s"
  "prior_block_init_counter (fold reset_cpu cs s) = prior_block_init_counter s"
  "kutrace_pid_filter (fold reset_cpu cs s) = kutrace_pid_filter s"
  "mem (fold reset_cpu cs s) = mem s"
  "online_cpus (fold reset_cpu cs s) = online_cpus s"
  by (induction cs arbitrary: s; simp add: reset_cpu_def)+

lemma fold_reset_cpu_per_cpu:
  "per_cpu (fold reset_cpu cs s) c =
    (if c \<in> set cs
     then (per_cpu s c)\<lparr>tb_next := 0, tb_limit := 0, prior_cycles := 0, prior_inst_retired := 0\<rparr>
     else per_cpu s c)"
  by (induction cs arbitrary: s) (auto simp: reset_cpu_def)

lemma do_reset_fields [simp]:
  "kutrace_tracing (snd (do_reset flags s)) = False"
  "do_ipc (snd (do_reset flags s)) = (flags AND DO_IPC \<noteq> 0)"
  "do_wrap (snd (do_reset flags s)) = (flags AND DO_WRAP \<noteq> 0)"
  "tracemb (snd (do_reset flags s)) = tracemb s"
  "tracebase (snd (do_reset flags s)) = tracebase s"
  "traceblock_high (snd (do_reset flags s)) = tracebase s + tracemb s * 2 ^ 17"
  "traceblock_limit (snd (do_reset flags s)) =
     (if flags AND DO_IPC \<noteq> 0 then tracebase s + tracemb s * 2 ^ 14 else tracebase s)"
  "traceblock_next (snd (do_reset flags s)) = tracebase s + tracemb s * 2 ^ 17"
  "did_wrap_around (snd (do_reset flags s)) = False"
  "prior_block_init_counter (snd (do_reset flags s)) = 0"
  "kutrace_pid_filter (snd (do_reset flags s)) = clear_pid_filter (kutrace_pid_filter s)"
  "mem (snd (do_reset flags s)) = mem s"
  "online_cpus (snd (do_reset flags s)) = online_cpus s"
  by (simp_all add: do_reset_def Let_def)

lemma do_reset_per_cpu:
  "per_cpu (snd (do_reset flags s)) c =
    (if c \<in> set (online_cpus s)
     then (per_cpu s c)\<lparr>tb_next := 0, tb_limit := 0, prior_cycles := 0, prior_inst_retired := 0\<rparr>
     else per_cpu s c)"
  by (simp add: do_reset_def Let_def fold_reset_cpu_per_cpu)

lemma mod_init_fields [simp]:
  "kutrace_tracing (kutrace_mod_init base mb cpus m0) = False"
  "do_ipc (kutrace_mod_init base mb cpus m0) = False"
  "do_wrap (kutrace_mod_init base mb cpus m0) = False"
  "tracemb (kutrace_mod_init base mb cpus m0) = mb"
  "tracebase (kutrace_mod_init base mb cpus m0) = base"
  "traceblock_high (kutrace_mod_init base mb cpus m0) = base + mb * 2 ^ 17"
  "traceblock_limit (kutrace_mod_init base mb cpus m0) = base"
  "traceblock_next (kutrace_mod_init base mb cpus m0) = base + mb * 2 ^ 17"
  "did_wrap_around (kutrace_mod_init base mb cpus m0) = False"
  "prior_block_init_counter (kutrace_mod_init base mb cpus m0) = 0"
  "mem (kutrace_mod_init base mb cpus m0) = m0"
  "online_cpus (kutrace_mod_init base mb cpus m0) = cpus"
  "per_cpu (kutrace_mod_init base mb cpus m0) c =
     \<lparr>tb_next = 0, tb_limit = 0, prior_cycles = 0, prior_inst_retired = 0\<rparr>"
  by (simp_all add: kutrace_mod_init_def do_reset_per_cpu DO_IPC_def DO_WRAP_def)

lemma mod_init_pid_filter [simp]: "kutrace_pid_filter (kutrace_mod_init base mb cpus m0) i = 0"
  by (simp add: kutrace_mod_init_def clear_pid_filter_def)

lemma initialize_trace_block_fields [simp]:
  "kutrace_tracing (snd (initialize_trace_block e p v s)) = kutrace_tracing s"
  "do_ipc (snd (initialize_trace_block e p v s)) = do_ipc s"
  "do_wrap (snd (initialize_trace_block e p v s)) = do_wrap s"
  "tracemb (snd (initialize_trace_block e p v s)) = tracemb s"
  "tracebase (snd (initialize_trace_block e p v s)) = tracebase s"
  "traceblock_high (snd (initialize_trace_block e p v s)) = traceblock_high s"
  "traceblock_limit (snd (initialize_trace_block e p v s)) = traceblock_limit s"
  "traceblock_next (snd (initialize_trace_block e p v s)) = traceblock_next s"
  "did_wrap_around (snd (initialize_trace_block e p v s)) = did_wrap_around s"
  "kutrace_pid_filter (snd (initialize_trace_block e p v s)) = kutrace_pid_filter s"
  "online_cpus (snd (initialize_trace_block e p v s)) = online_cpus s"
  "tb_next (per_cpu (snd (initialize_trace_block e p v s)) c) = tb_next (per_cpu s c)"
  "tb_limit (per_cpu (snd (initialize_trace_block e p v s)) c) = tb_limit (per_cpu s c)"
  by (simp_all add: initialize_trace_block_def Let_def)

lemma initialize_trace_block_fst:
  "fst (initialize_trace_block e p v s) = (if v then p + 12 else p + 6)"
  by (simp add: initialize_trace_block_def Let_def)

lemma open_block_fields [simp]:
  "kutrace_tracing (snd (open_block e len v s)) = kutrace_tracing s"
  "do_ipc (snd (open_block e len v s)) = do_ipc s"
  "do_wrap (snd (open_block e len v s)) = do_wrap s"
  "tracemb (snd (open_block e len v s)) = tracemb s"
  "tracebase (snd (open_block e len v s)) = tracebase s"
  "traceblock_high (snd (open_block e len v s)) = traceblock_high s"
  "traceblock_limit (snd (open_block e len v s)) = traceblock_limit s"
  "traceblock_next (snd (open_block e len v s)) = traceblock_next s"
  "did_wrap_around (snd (open_block e len v s)) = did_wrap_around s"
  "kutrace_pid_filter (snd (open_block e len v s)) = kutrace_pid_filter s"
  "online_cpus (snd (open_block e len v s)) = online_cpus s"
  "cpu e = c \<Longrightarrow>
     tb_next (per_cpu (snd (open_block e len v s)) c) = fst (open_block e len v s) + len"
  "cpu e = c \<Longrightarrow>
     tb_limit (per_cpu (snd (open_block e len v s)) c) = traceblock_next s + KUTRACEBLOCKSIZEU64"
  "cpu e \<noteq> c \<Longrightarrow> tb_next (per_cpu (snd (open_block e len v s)) c) = tb_next (per_cpu s c)"
  "cpu e \<noteq> c \<Longrightarrow> tb_limit (per_cpu (snd (open_block e len v s)) c) = tb_limit (per_cpu s c)"
  by (auto simp: open_block_def split_beta)

lemma open_block_fst:
  "fst (open_block e len v s) = (if v then traceblock_next s + 12 else traceblock_next s + 6)"
  by (simp add: open_block_def split_beta initialize_trace_block_fst)


section \<open>Off and Flush\<close>

lemma zero_words_ge: "limit_item \<le> p \<Longrightarrow> zero_words p limit_item m z = (m, z)"
  by (simp add: zero_words.simps)

lemma tb_next_same: "tb_next t = v \<Longrightarrow> t\<lparr>tb_next := v\<rparr> = t"
  by auto

lemma set_tb_same: "f (per_cpu s c) = per_cpu s c \<Longrightarrow> set_tb c f s = s"
  by (simp add: set_tb_def)

lemma flush_cpu_settled:
  assumes "tb_next (per_cpu s c) = 0 \<or> tb_limit (per_cpu s c) = 0
           \<or> tb_next (per_cpu s c) = tb_limit (per_cpu s c)"
  shows "flush_cpu c (s, z) = (s, z)"
  using assms by (auto simp: flush_cpu_def Let_def zero_words_ge set_tb_same tb_next_same)

lemma flush_cpu_settles: "settled c (fst (flush_cpu c (s, z)))"
  by (auto simp: flush_cpu_def Let_def settled_def split: prod.splits)

lemma flush_cpu_keeps_settled: "settled d s \<Longrightarrow> settled d (fst (flush_cpu c (s, z)))"
  by (auto simp: flush_cpu_def Let_def settled_def split: prod.splits)

lemma flush_cpu_online: "online_cpus (fst (flush_cpu c (s, z))) = online_cpus s"
  by (auto simp: flush_cpu_def Let_def split: prod.splits)

lemma flush_cpu_tracing: "kutrace_tracing (fst (flush_cpu c (s, z))) = kutrace_tracing s"
  by (auto simp: flush_cpu_def Let_def split: prod.splits)

lemma fold_flush_keeps:
  "settled d (fst sz) \<Longrightarrow> settled d (fst (fold flush_cpu cs sz))"
proof (induction cs arbitrary: sz)
  case Nil then show ?case by simp
next
  case (Cons c cs)
  obtain s z where sz: "sz = (s, z)" by (cases sz)
  have "settled d (fst (flush_cpu c (s, z)))"
    using Cons.prems by (simp add: sz flush_cpu_keeps_settled)
  then show ?case using Cons.IH[of "flush_cpu c (s, z)"] by (simp add: sz)
qed

lemma fold_flush_settles:
  "d \<in> set cs \<Longrightarrow> settled d (fst (fold flush_cpu cs sz))"
proof (induction cs arbitrary: sz)
  case Nil then show ?case by simp
next
  case (Cons c cs)
  obtain s z where sz: "sz = (s, z)" by (cases sz)
  show ?case
  proof (cases "d = c")
    case True
    then show ?thesis using flush_cpu_settles[of c s z] by (simp add: sz fold_flush_keeps)
  next
    case False
    then show ?thesis using Cons by simp
  qed
qed

lemma fold_flush_online: "online_cpus (fst (fold flush_cpu cs sz)) = online_cpus (fst sz)"
proof (induction cs arbitrary: sz)
  case Nil then show ?case by simp
next
  case (Cons c cs)
  obtain s z where sz: "sz = (s, z)" by (cases sz)
  show ?case using Cons.IH[of "flush_cpu c (s, z)"] by (simp add: sz flush_cpu_online)
qed

lemma fold_flush_tracing: "kutrace_tracing (fst (fold flush_cpu cs sz)) = kutrace_tracing (fst sz)"
proof (induction cs arbitrary: sz)
  case Nil then show ?case by simp
next
  case (Cons c cs)
  obtain s z where sz: "sz = (s, z)" by (cases sz)
  show ?case using Cons.IH[of "flush_cpu c (s, z)"] by (simp add: sz flush_cpu_tracing)
qed

lemma fold_flush_id:
  "\<forall>c \<in> set cs. settled c s \<Longrightarrow> fold flush_cpu cs (s, z) = (s, z)"
  by (induction cs) (auto simp: flush_cpu_settled settled_def)

lemma tracing_off_id: "\<not> kutrace_tracing s \<Longrightarrow> s\<lparr>kutrace_tracing := False\<rparr> = s"
  by simp

lemma do_flush_twice: "do_flush (snd (do_flush s)) = (0, snd (do_flush s))"
proof -
  define r where "r = fold flush_cpu (online_cpus s) (s\<lparr>kutrace_tracing := False\<rparr>, 0)"
  define s' where "s' = fst r"
  have s': "snd (do_flush s) = s'"
    by (simp add: do_flush_def r_def s'_def split: prod.splits)
  have on: "online_cpus s' = online_cpus s"
    unfolding s'_def r_def by (simp add: fold_flush_online)
  have tr: "\<not> kutrace_tracing s'"
    unfolding s'_def r_def by (simp add: fold_flush_tracing)
  have st: "\<forall>c \<in> set (online_cpus s'). settled c s'"
    unfolding on unfolding s'_def r_def by (simp add: fold_flush_settles)
  have "do_flush s' = (0, s')"
    using fold_flush_id[OF st, of 0] by (simp add: do_flush_def tracing_off_id[OF tr])
  then show ?thesis by (simp add: s')
qed

text \<open>
  Claim C8. Off when tracing is already stopped, and Flush a second time in a row, change
  nothing: the second \<open>do_flush\<close> zeroes no word and returns the state it was given, and
  \<open>do_trace_off\<close> on a stopped tracer returns it unchanged (in every case a second
  \<open>do_trace_off\<close> changes nothing).
\<close>

theorem off_and_flush_idempotent:
  "do_flush (snd (do_flush s)) = (0, snd (do_flush s))
   \<and> do_trace_off (snd (do_trace_off s)) = (0, snd (do_trace_off s))
   \<and> (\<not> kutrace_tracing s \<longrightarrow> do_trace_off s = (0, s))"
  by (simp add: do_flush_twice do_trace_off_def)

lemma flush_nearly_full:
  "fst (do_flush nearly_full) = 2"
  by (simp add: do_flush_def flush_cpu_def Let_def nearly_full_def zero_words.simps split_beta)

theorem off_and_flush_idempotent_witness:
  "\<not> kutrace_tracing (kutrace_mod_init 0x100000 2 [0, 1] (\<lambda>_. 0))
   \<and> do_trace_off (kutrace_mod_init 0x100000 2 [0, 1] (\<lambda>_. 0))
       = (0, kutrace_mod_init 0x100000 2 [0, 1] (\<lambda>_. 0))
   \<and> fst (do_flush nearly_full) = 2
   \<and> do_flush (snd (do_flush nearly_full)) = (0, snd (do_flush nearly_full))"
  using off_and_flush_idempotent[of "kutrace_mod_init 0x100000 2 [0, 1] (\<lambda>_. 0)"]
    off_and_flush_idempotent[of nearly_full]
  by (simp add: flush_nearly_full)

section \<open>Bad record lengths\<close>

text \<open>
  Claim C6. For every requested length outside \<open>1..8\<close>, \<open>get_claim\<close> and \<open>get_slow_claim\<close>
  return \<open>NULL\<close>, and \<open>insert_n_krnl\<close> and \<open>insert_n_user\<close> (whose length is the \<open>entry_len\<close> of
  the first word) report 0 words; each turns the tracing flag off and changes nothing else.
\<close>

theorem bad_length_degrades:
  assumes "len < 1 \<or> 8 < len"
  shows "get_claim e len s = (0, s\<lparr>kutrace_tracing := False\<rparr>)
       \<and> get_slow_claim e len s = (0, s\<lparr>kutrace_tracing := False\<rparr>)
       \<and> (u64_to_int (entry_len (krnl 0)) = len \<longrightarrow>
            insert_n_krnl e krnl s = (0, s\<lparr>kutrace_tracing := False\<rparr>))
       \<and> (user_mem e a = Some temp \<and> u64_to_int (entry_len (temp 0)) = len \<longrightarrow>
            insert_n_user e a s = (0, s\<lparr>kutrace_tracing := False\<rparr>))"
  using assms
  by (auto simp: get_claim_def get_slow_claim_def insert_n_krnl_def insert_n_user_def
      is_bad_len_def)

theorem bad_length_degrades_witness:
  "((9::int) < 1 \<or> 8 < (9::int))
   \<and> get_claim (quiet_env 0 5) 9 ((kutrace_mod_init 0x100000 2 [0] (\<lambda>_. 0))\<lparr>kutrace_tracing := True\<rparr>)
      = (0, (kutrace_mod_init 0x100000 2 [0] (\<lambda>_. 0))\<lparr>kutrace_tracing := False\<rparr>)
   \<and> get_slow_claim (quiet_env 0 5) 9 ((kutrace_mod_init 0x100000 2 [0] (\<lambda>_. 0))\<lparr>kutrace_tracing := True\<rparr>)
      = (0, (kutrace_mod_init 0x100000 2 [0] (\<lambda>_. 0))\<lparr>kutrace_tracing := False\<rparr>)"
  using bad_length_degrades[where len = 9 and e = "quiet_env 0 5"
      and s = "(kutrace_mod_init 0x100000 2 [0] (\<lambda>_. 0))\<lparr>kutrace_tracing := True\<rparr>"]
  by simp

section \<open>GetCount\<close>

text \<open>
  Claim C5. With a trace buffer allocated, the GETCOUNT command returns the word distance from
  \<open>traceblock_high\<close> down to \<open>traceblock_next\<close> (down to \<open>traceblock_limit\<close> if the arena wrapped
  or the frontier overshot), bit-inverted if wraparound occurred; the only state change is
  that the tracing flag is off.
\<close>

theorem getcount_result:
  assumes "tracebase s \<noteq> 0"
  shows "kutrace_control e CMD_GETCOUNT arg s =
          Inr (let count = word_of_int (traceblock_high s -
                             (if did_wrap_around s \<or> traceblock_next s < traceblock_limit s
                              then traceblock_limit s else traceblock_next s))
               in if did_wrap_around s then NOT count else count,
               s\<lparr>kutrace_tracing := False\<rparr>)"
  using assms by (simp add: kutrace_control_def get_count_def Let_def)

theorem getcount_result_witness:
  "tracebase ((kutrace_mod_init 0x100000 2 [0] (\<lambda>_. 0))\<lparr>did_wrap_around := True\<rparr>) \<noteq> 0
   \<and> kutrace_control (quiet_env 0 5) CMD_GETCOUNT 0
        ((kutrace_mod_init 0x100000 2 [0] (\<lambda>_. 0))\<lparr>did_wrap_around := True\<rparr>)
      = Inr (NOT 262144, (kutrace_mod_init 0x100000 2 [0] (\<lambda>_. 0))\<lparr>did_wrap_around := True\<rparr>)"
  using getcount_result[where e = "quiet_env 0 5" and arg = 0
      and s = "(kutrace_mod_init 0x100000 2 [0] (\<lambda>_. 0))\<lparr>did_wrap_around := True\<rparr>"]
  by (simp add: tracing_off_id)
section \<open>Arena exhaustion in the slow path\<close>

text \<open>
  Claim C3. When \<open>really_get_slow_claim\<close> has moved \<open>traceblock_next\<close> down by one block and
  the result is below \<open>traceblock_limit\<close>: in wrap mode \<open>traceblock_next\<close> becomes
  \<open>traceblock_high - 2 * KUTRACEBLOCKSIZEU64\<close>, \<open>did_wrap_around\<close> is set and the 1024 words of
  the pid filter are zero; without wrap mode tracing is turned off and \<open>NULL\<close> is returned
  (the frontier stays one block lower).
\<close>

theorem arena_exhausted:
  assumes "traceblock_next s - KUTRACEBLOCKSIZEU64 < traceblock_limit s"
  shows "(do_wrap s \<longrightarrow>
            traceblock_next (snd (really_get_slow_claim e len s))
              = traceblock_high s - 2 * KUTRACEBLOCKSIZEU64
          \<and> did_wrap_around (snd (really_get_slow_claim e len s))
          \<and> (\<forall>i < 1024. kutrace_pid_filter (snd (really_get_slow_claim e len s)) i = 0))
       \<and> (\<not> do_wrap s \<longrightarrow>
            really_get_slow_claim e len s
              = (0, s\<lparr>traceblock_next := traceblock_next s - KUTRACEBLOCKSIZEU64,
                       kutrace_tracing := False\<rparr>))"
  using assms by (simp add: really_get_slow_claim_def Let_def clear_pid_filter_def)

theorem arena_exhausted_witness:
  "traceblock_next ((kutrace_mod_init 0x100000 2 [0] (\<lambda>_. 0))\<lparr>traceblock_next := 0x100000, do_wrap := True\<rparr>)
       - KUTRACEBLOCKSIZEU64
     < traceblock_limit ((kutrace_mod_init 0x100000 2 [0] (\<lambda>_. 0))\<lparr>traceblock_next := 0x100000, do_wrap := True\<rparr>)
   \<and> traceblock_next (snd (really_get_slow_claim (quiet_env 0 5) 1
        ((kutrace_mod_init 0x100000 2 [0] (\<lambda>_. 0))\<lparr>traceblock_next := 0x100000, do_wrap := True\<rparr>)))
      = 0x13C000
   \<and> did_wrap_around (snd (really_get_slow_claim (quiet_env 0 5) 1
        ((kutrace_mod_init 0x100000 2 [0] (\<lambda>_. 0))\<lparr>traceblock_next := 0x100000, do_wrap := True\<rparr>)))
   \<and> really_get_slow_claim (quiet_env 0 5) 1
        ((kutrace_mod_init 0x100000 2 [0] (\<lambda>_. 0))\<lparr>traceblock_next := 0x100000\<rparr>)
      = (0, (kutrace_mod_init 0x100000 2 [0] (\<lambda>_. 0))\<lparr>traceblock_next := 0xFE000\<rparr>)"
  using arena_exhausted[where e = "quiet_env 0 5" and len = 1
      and s = "(kutrace_mod_init 0x100000 2 [0] (\<lambda>_. 0))\<lparr>traceblock_next := 0x100000, do_wrap := True\<rparr>"]
    arena_exhausted[where e = "quiet_env 0 5" and len = 1
      and s = "(kutrace_mod_init 0x100000 2 [0] (\<lambda>_. 0))\<lparr>traceblock_next := 0x100000\<rparr>"]
  by (simp add: KUTRACEBLOCKSIZEU64_def tracing_off_id)

section \<open>The fast path of \<open>get_claim\<close>\<close>

lemma atomic_add_next_fields [simp]:
  "kutrace_tracing (atomic_add_next c len s) = kutrace_tracing s"
  "do_ipc (atomic_add_next c len s) = do_ipc s"
  "do_wrap (atomic_add_next c len s) = do_wrap s"
  "tracemb (atomic_add_next c len s) = tracemb s"
  "tracebase (atomic_add_next c len s) = tracebase s"
  "traceblock_high (atomic_add_next c len s) = traceblock_high s"
  "traceblock_limit (atomic_add_next c len s) = traceblock_limit s"
  "traceblock_next (atomic_add_next c len s) = traceblock_next s"
  "did_wrap_around (atomic_add_next c len s) = did_wrap_around s"
  "prior_block_init_counter (atomic_add_next c len s) = prior_block_init_counter s"
  "kutrace_pid_filter (atomic_add_next c len s) = kutrace_pid_filter s"
  "mem (atomic_add_next c len s) = mem s"
  "online_cpus (atomic_add_next c len s) = online_cpus s"
  "tb_limit (per_cpu (atomic_add_next c len s) d) = tb_limit (per_cpu s d)"
  "tb_next (per_cpu (atomic_add_next c len s) c) = tb_next (per_cpu s c) + len"
  "prior_cycles (per_cpu (atomic_add_next c len s) d) = prior_cycles (per_cpu s d)"
  "prior_inst_retired (per_cpu (atomic_add_next c len s) d) = prior_inst_retired (per_cpu s d)"
  by (simp_all add: atomic_add_next_def)



lemma initialize_trace_block_loop_irqs [simp]:
  "initialize_trace_block (e\<lparr>loop_irqs := r\<rparr>) p v s = initialize_trace_block e p v s"
  by (simp add: initialize_trace_block_def Let_def)

lemma open_block_loop_irqs [simp]:
  "open_block (e\<lparr>loop_irqs := r\<rparr>) len v s = open_block e len v s"
  by (simp add: open_block_def)

lemma really_get_slow_claim_loop_irqs [simp]:
  "really_get_slow_claim (e\<lparr>loop_irqs := r\<rparr>) len s = really_get_slow_claim e len s"
  by (simp add: really_get_slow_claim_def Let_def)

lemma get_slow_claim_loop_irqs [simp]:
  "get_slow_claim (e\<lparr>loop_irqs := r\<rparr>) len s = get_slow_claim e len s"
  by (simp add: get_slow_claim_def Let_def)

lemma fast_iter_quiet:
  "fast_iter c len id id locals s =
    (False,
     if tb_limit (per_cpu s c) = 0 then (locals, s)
     else ((tb_next (per_cpu s c), tb_limit (per_cpu s c)), atomic_add_next c len s))"
  by (simp add: fast_iter_def Let_def)


lemma really_get_slow_claim_room:
  assumes "traceblock_limit s \<le> traceblock_next s - KUTRACEBLOCKSIZEU64"
  shows "really_get_slow_claim e len s
          = open_block e len (traceblock_next s = traceblock_high s)
              (s\<lparr>traceblock_next := traceblock_next s - KUTRACEBLOCKSIZEU64\<rparr>)"
  using assms by (simp add: really_get_slow_claim_def Let_def)

lemma get_claim_quiet_fast:
  assumes "loop_irqs e = []" "\<not> is_bad_len len" "tb_limit (per_cpu s (cpu e)) \<noteq> 0"
    "tb_next (per_cpu s (cpu e)) + len < tb_limit (per_cpu s (cpu e))"
  shows "get_claim e len s = (tb_next (per_cpu s (cpu e)), atomic_add_next (cpu e) len s)"
  using assms by (simp add: get_claim_def fast_iter_quiet)

lemma get_claim_quiet_full:
  assumes "loop_irqs e = []" "slow_irq e = id" "\<not> is_bad_len len" "0 \<le> len"
    "tb_limit (per_cpu s (cpu e)) \<noteq> 0"
    "tb_limit (per_cpu s (cpu e)) \<le> tb_next (per_cpu s (cpu e)) + len"
  shows "get_claim e len s
          = really_get_slow_claim e len
              (atomic_add_next (cpu e) len (atomic_add_next (cpu e) len s))"
  using assms by (simp add: get_claim_def fast_iter_quiet get_slow_claim_def Let_def)

lemma get_claim_quiet_first:
  assumes "loop_irqs e = []" "slow_irq e = id" "\<not> is_bad_len len" "0 \<le> len"
    "tb_limit (per_cpu s (cpu e)) = 0"
  shows "get_claim e len s = really_get_slow_claim e len (atomic_add_next (cpu e) len s)"
  using assms by (simp add: get_claim_def fast_iter_quiet get_slow_claim_def Let_def)

lemma quiet_env_fields [simp]:
  "cpu (quiet_env c t) = c" "now (quiet_env c t) = t" "block_time (quiet_env c t) = t"
  "inst_ret (quiet_env c t) = 0" "cur_pid (quiet_env c t) = 1"
  "cur_comm (quiet_env c t) = (0x74696e69, 0)"
  "loop_irqs (quiet_env c t) = []" "slow_irq (quiet_env c t) = id"
  "user_mem (quiet_env c t) = (\<lambda>_. None)"
  by (simp_all add: quiet_env_def)

lemma nearly_full_fields [simp]:
  "kutrace_tracing nearly_full" "\<not> do_ipc nearly_full" "\<not> do_wrap nearly_full"
  "tracebase nearly_full = 0x100000"
  "traceblock_high nearly_full = 0x140000" "traceblock_limit nearly_full = 0x100000"
  "traceblock_next nearly_full = 0x13E000" "\<not> did_wrap_around nearly_full"
  "tb_next (per_cpu nearly_full c) = 0x13FFFE" "tb_limit (per_cpu nearly_full c) = 0x140000"
  by (simp_all add: nearly_full_def)

lemma nested_claim_rolls:
  "nested_claim 0 6 8 nearly_full
     = snd (open_block (quiet_env 0 6) 8 False
         ((atomic_add_next 0 8 (atomic_add_next 0 8 nearly_full))\<lparr>traceblock_next := 0x13C000\<rparr>))"
  by (simp add: nested_claim_def get_claim_quiet_full is_bad_len_def really_get_slow_claim_room
      KUTRACEBLOCKSIZEU64_def)




section \<open>Claims stay inside one block\<close>

lemma div_block_unique:
  fixes j r :: int
  assumes "0 \<le> r" "r < KUTRACEBLOCKSIZEU64"
  shows "(KUTRACEBLOCKSIZEU64 * j + r) div KUTRACEBLOCKSIZEU64 = j"
  using assms by (simp add: KUTRACEBLOCKSIZEU64_def div_pos_pos_trivial)

lemma block_number_in_block:
  assumes dv: "KUTRACEBLOCKSIZEU64 dvd (traceblock_high s - b)"
    and q: "b \<le> q" "q < b + KUTRACEBLOCKSIZEU64"
  shows "block_number s q = (traceblock_high s - b) div KUTRACEBLOCKSIZEU64 - 1"
proof -
  from dv obtain k where k: "traceblock_high s - b = KUTRACEBLOCKSIZEU64 * k" by (auto simp: dvd_def)
  have "traceblock_high s - 1 - q = KUTRACEBLOCKSIZEU64 * (k - 1) + (b + KUTRACEBLOCKSIZEU64 - 1 - q)"
    using k by (simp add: algebra_simps)
  moreover have "0 \<le> b + KUTRACEBLOCKSIZEU64 - 1 - q" "b + KUTRACEBLOCKSIZEU64 - 1 - q < KUTRACEBLOCKSIZEU64"
    using q by simp_all
  ultimately have "(traceblock_high s - 1 - q) div KUTRACEBLOCKSIZEU64 = k - 1"
    using div_block_unique by metis
  moreover have "(traceblock_high s - b) div KUTRACEBLOCKSIZEU64 = k"
    unfolding k by (simp add: KUTRACEBLOCKSIZEU64_def)
  ultimately show ?thesis by (simp add: block_number_def)
qed

lemma in_block_within:
  assumes "KUTRACEBLOCKSIZEU64 dvd (traceblock_high s - b)"
    and "traceblock_limit s \<le> b" "b + KUTRACEBLOCKSIZEU64 \<le> traceblock_high s"
    and "b \<le> p" "1 \<le> len" "p + len \<le> b + KUTRACEBLOCKSIZEU64"
  shows "within_one_block s p len"
proof -
  have "block_number s p = block_number s (p + len - 1)"
    using assms by (simp add: block_number_in_block[where b = b])
  then show ?thesis using assms by (simp add: within_one_block_def)
qed

lemma within_one_block_frame:
  "traceblock_high s' = traceblock_high s \<Longrightarrow> traceblock_limit s' = traceblock_limit s \<Longrightarrow>
   within_one_block s' p len = within_one_block s p len"
  by (simp add: within_one_block_def block_number_def)

lemma dvd_block_step:
  "KUTRACEBLOCKSIZEU64 dvd (h - n) \<Longrightarrow> KUTRACEBLOCKSIZEU64 dvd (h - (n - KUTRACEBLOCKSIZEU64))"
  by (metis add.commute add_diff_cancel_left' diff_diff_eq2 dvd_add_triv_left_iff diff_add_cancel dvd_add_right_iff dvd_refl)

lemma state_inv_add:
  "state_inv c s \<Longrightarrow> 0 \<le> len \<Longrightarrow> state_inv c (atomic_add_next c len s)"
  by (auto simp: state_inv_def arena_ok_def cursor_ok_def)

lemma irq_ok_id: "irq_ok c id"
  by (simp add: irq_ok_def)

lemma no_aba_id_after: "no_aba c len before id"
  by (simp add: no_aba_def)

lemma no_aba_id_before: "no_aba c len id after"
  by (simp add: no_aba_def)

lemma fast_iter_inv:
  assumes inv: "state_inv c s" and len: "0 \<le> len"
    and ok: "irq_ok c before" "irq_ok c after" "no_aba c len before after"
    and loc: "tb_limit (per_cpu s c) = 0 \<longrightarrow> snd locals \<le> fst locals + len"
    and it: "fast_iter c len before after locals s = (again, (mc, ag), s2)"
  shows "state_inv c s2 \<and> traceblock_high s2 = traceblock_high s
       \<and> traceblock_limit s2 = traceblock_limit s
       \<and> (tb_limit (per_cpu s c) \<noteq> 0 \<longrightarrow> tb_limit (per_cpu s2 c) \<noteq> 0)
       \<and> (again \<longrightarrow> tb_limit (per_cpu s2 c) \<noteq> 0)
       \<and> (\<not> again \<longrightarrow> mc + len < ag \<longrightarrow> ag - KUTRACEBLOCKSIZEU64 \<le> mc \<and> block_limit s ag)"
proof (cases "tb_limit (per_cpu s c) = 0")
  case True
  then have "again = False" "(mc, ag) = locals" "s2 = s"
    using it by (simp_all add: fast_iter_def)
  then show ?thesis using inv loc True by auto
next
  case False
  define sb where "sb = before s"
  define s1 where "s1 = atomic_add_next c len sb"
  have sb: "state_inv c sb" "traceblock_high sb = traceblock_high s"
    "traceblock_limit sb = traceblock_limit s" "tb_limit (per_cpu sb c) \<noteq> 0"
    using ok(1) inv False by (auto simp: irq_ok_def sb_def)
  have s1: "state_inv c s1" "traceblock_high s1 = traceblock_high s"
    "traceblock_limit s1 = traceblock_limit s" "tb_limit (per_cpu s1 c) \<noteq> 0"
    using sb len by (simp_all add: s1_def state_inv_add)
  have s2_eq: "s2 = after s1" and mc: "mc = tb_next (per_cpu sb c)"
    and ag: "ag = tb_limit (per_cpu s2 c)"
    using it False by (auto simp: fast_iter_def Let_def sb_def s1_def split: if_splits)
  have s2: "state_inv c s2" "traceblock_high s2 = traceblock_high s"
    "traceblock_limit s2 = traceblock_limit s" "tb_limit (per_cpu s2 c) \<noteq> 0"
    using ok(2) s1 by (auto simp: irq_ok_def s2_eq)
  have bl: "block_limit s ag"
    using s2 by (auto simp: block_limit_def ag state_inv_def cursor_ok_def)
  have low: "ag - KUTRACEBLOCKSIZEU64 \<le> mc" if "\<not> again"
  proof (cases "tb_limit (per_cpu s c) = ag")
    case True
    then have "tb_limit (per_cpu sb c) = tb_limit (per_cpu s c)"
      using ok(3) inv by (simp add: no_aba_def ag s2_eq s1_def sb_def)
    then show ?thesis using sb(1,4) True by (auto simp: state_inv_def cursor_ok_def mc)
  next
    case neq: False
    then show ?thesis
      using it False that
      by (auto simp: fast_iter_def Let_def sb_def[symmetric] s1_def[symmetric] s2_eq[symmetric]
          ag[symmetric] mc split: if_splits)
  qed
  show ?thesis using s2 bl low by auto
qed

lemma fast_loop_inv:
  assumes "state_inv c s" "0 \<le> len"
    "\<forall>(b, a) \<in> set irqs. irq_ok c b \<and> irq_ok c a \<and> no_aba c len b a"
    "tb_limit (per_cpu s c) = 0 \<longrightarrow> snd locals \<le> fst locals + len"
    "fast_loop c len irqs locals s = ((mc, ag), s1)"
  shows "state_inv c s1 \<and> traceblock_high s1 = traceblock_high s
       \<and> traceblock_limit s1 = traceblock_limit s
       \<and> (tb_limit (per_cpu s c) \<noteq> 0 \<longrightarrow> tb_limit (per_cpu s1 c) \<noteq> 0)
       \<and> (mc + len < ag \<longrightarrow> ag - KUTRACEBLOCKSIZEU64 \<le> mc \<and> block_limit s ag)"
  using assms
proof (induction irqs arbitrary: s locals)
  case Nil
  obtain again where "fast_iter c len id id locals s = (again, (mc, ag), s1)"
    using Nil.prems(5) by (cases "fast_iter c len id id locals s") auto
  moreover have "\<not> again" using calculation by (simp add: fast_iter_quiet)
  ultimately show ?case
    using fast_iter_inv[OF Nil.prems(1,2) irq_ok_id irq_ok_id no_aba_id_after Nil.prems(4)]
    by blast
next
  case (Cons ba irqs)
  obtain b a where ba: "ba = (b, a)" by (cases ba)
  obtain again mc' ag' s' where it: "fast_iter c len b a locals s = (again, (mc', ag'), s')"
    by (cases "fast_iter c len b a locals s") auto
  have ok: "irq_ok c b" "irq_ok c a" "no_aba c len b a" using Cons.prems(3) ba by auto
  note step = fast_iter_inv[OF Cons.prems(1,2) ok Cons.prems(4) it]
  show ?case
  proof (cases again)
    case False
    then have "mc' = mc" "ag' = ag" "s' = s1" using Cons.prems(5) it ba by auto
    then show ?thesis using step False by blast
  next
    case True
    then have rec: "fast_loop c len irqs (mc', ag') s' = ((mc, ag), s1)"
      using Cons.prems(5) it ba by simp
    have "tb_limit (per_cpu s' c) \<noteq> 0" using step True by blast
    then have loc': "tb_limit (per_cpu s' c) = 0 \<longrightarrow> snd (mc', ag') \<le> fst (mc', ag') + len"
      by simp
    have rest: "\<forall>(b, a) \<in> set irqs. irq_ok c b \<and> irq_ok c a \<and> no_aba c len b a"
      using Cons.prems(3) by simp
    have st: "state_inv c s'" using step by blast
    from Cons.IH[OF st Cons.prems(2) rest loc' rec] step
    show ?thesis by (auto simp: block_limit_def)
  qed
qed

lemma within_one_block_updates [simp]:
  "within_one_block (s\<lparr>traceblock_next := n\<rparr>) = within_one_block s"
  "within_one_block (s\<lparr>did_wrap_around := w\<rparr>) = within_one_block s"
  "within_one_block (s\<lparr>kutrace_pid_filter := f\<rparr>) = within_one_block s"
  "within_one_block (s\<lparr>kutrace_tracing := t\<rparr>) = within_one_block s"
  "within_one_block (atomic_add_next c len s) = within_one_block s"
  by (simp_all add: within_one_block_def block_number_def fun_eq_iff)

lemma open_block_inv:
  assumes ar: "arena_ok s" and c: "cpu e = c" and len: "1 \<le> len" "len \<le> 8"
    and nx: "traceblock_limit s \<le> traceblock_next s"
      "traceblock_next s + KUTRACEBLOCKSIZEU64 \<le> traceblock_high s"
  shows "state_inv c (snd (open_block e len v s))
       \<and> tb_limit (per_cpu (snd (open_block e len v s)) c) \<noteq> 0
       \<and> within_one_block s (fst (open_block e len v s)) len"
proof -
  let ?s' = "snd (open_block e len v s)"
  have lim: "tb_limit (per_cpu ?s' c) = traceblock_next s + KUTRACEBLOCKSIZEU64"
    and nxt: "tb_next (per_cpu ?s' c) = fst (open_block e len v s) + len"
    using c by simp_all
  have p: "traceblock_next s + 6 \<le> fst (open_block e len v s)"
    "fst (open_block e len v s) \<le> traceblock_next s + 12" by (auto simp: open_block_fst)
  have dv: "KUTRACEBLOCKSIZEU64 dvd (traceblock_high s - traceblock_next s)"
    using ar by (simp add: arena_ok_def)
  have dv': "KUTRACEBLOCKSIZEU64 dvd (traceblock_high s - (traceblock_next s + KUTRACEBLOCKSIZEU64))"
    using dv by (metis diff_diff_eq dvd_diff dvd_refl)
  have "arena_ok ?s'" using ar by (simp add: arena_ok_def)
  moreover have "cursor_ok c ?s'"
    unfolding cursor_ok_def lim nxt using nx p dv' len
    by (simp add: KUTRACEBLOCKSIZEU64_def)
  moreover have "tb_limit (per_cpu ?s' c) \<noteq> 0"
    unfolding lim using nx ar by (simp add: arena_ok_def KUTRACEBLOCKSIZEU64_def)
  moreover have "within_one_block s (fst (open_block e len v s)) len"
    apply (rule in_block_within[where b = "traceblock_next s"])
    using dv nx p len by (simp_all add: KUTRACEBLOCKSIZEU64_def)
  ultimately show ?thesis by (simp add: state_inv_def)
qed

lemma really_get_slow_claim_inv:
  assumes inv: "state_inv c s" and c: "cpu e = c" and len: "1 \<le> len" "len \<le> 8"
  shows "state_inv c (snd (really_get_slow_claim e len s))
       \<and> traceblock_high (snd (really_get_slow_claim e len s)) = traceblock_high s
       \<and> traceblock_limit (snd (really_get_slow_claim e len s)) = traceblock_limit s
       \<and> (tb_limit (per_cpu s c) \<noteq> 0 \<longrightarrow>
            tb_limit (per_cpu (snd (really_get_slow_claim e len s)) c) \<noteq> 0)
       \<and> (fst (really_get_slow_claim e len s) \<noteq> 0 \<longrightarrow>
            within_one_block s (fst (really_get_slow_claim e len s)) len)"
proof -
  have ar: "arena_ok s" and cu: "cursor_ok c s" using inv by (simp_all add: state_inv_def)
  let ?s1 = "s\<lparr>traceblock_next := traceblock_next s - KUTRACEBLOCKSIZEU64\<rparr>"
  let ?sw = "?s1\<lparr>did_wrap_around := True,
                  traceblock_next := traceblock_high ?s1 - 2 * KUTRACEBLOCKSIZEU64,
                  kutrace_pid_filter := clear_pid_filter (kutrace_pid_filter ?s1)\<rparr>"
  let ?v = "traceblock_next s = traceblock_high s"
  have dv1: "KUTRACEBLOCKSIZEU64 dvd (traceblock_high s - (traceblock_next s - KUTRACEBLOCKSIZEU64))"
    using ar by (simp add: arena_ok_def dvd_block_step)
  consider (full) "traceblock_next s - KUTRACEBLOCKSIZEU64 < traceblock_limit s" "\<not> do_wrap s"
    | (wrap) "traceblock_next s - KUTRACEBLOCKSIZEU64 < traceblock_limit s" "do_wrap s"
    | (room) "traceblock_limit s \<le> traceblock_next s - KUTRACEBLOCKSIZEU64" by linarith
  then show ?thesis
  proof cases
    case full
    then have eq: "really_get_slow_claim e len s = (0, ?s1\<lparr>kutrace_tracing := False\<rparr>)"
      by (simp add: really_get_slow_claim_def Let_def)
    have "arena_ok (?s1\<lparr>kutrace_tracing := False\<rparr>)"
      using ar dv1 by (simp add: arena_ok_def KUTRACEBLOCKSIZEU64_def)
    moreover have "cursor_ok c (?s1\<lparr>kutrace_tracing := False\<rparr>)"
      using cu by (simp add: cursor_ok_def)
    ultimately show ?thesis by (simp add: eq state_inv_def)
  next
    case wrap
    then have eq: "really_get_slow_claim e len s = open_block e len ?v ?sw"
      by (simp add: really_get_slow_claim_def Let_def)
    have "arena_ok ?sw"
      using ar by (simp add: arena_ok_def KUTRACEBLOCKSIZEU64_def)
    from open_block_inv[OF this c len, of ?v] ar
    have "state_inv c (snd (open_block e len ?v ?sw))
       \<and> tb_limit (per_cpu (snd (open_block e len ?v ?sw)) c) \<noteq> 0
       \<and> within_one_block ?sw (fst (open_block e len ?v ?sw)) len"
      by (simp add: arena_ok_def KUTRACEBLOCKSIZEU64_def)
    then show ?thesis
      unfolding eq by simp
  next
    case room
    then have eq: "really_get_slow_claim e len s = open_block e len ?v ?s1"
      by (simp add: really_get_slow_claim_room)
    have "arena_ok ?s1"
      using ar dv1 by (simp add: arena_ok_def KUTRACEBLOCKSIZEU64_def)
    from open_block_inv[OF this c len, of ?v] ar room
    have "state_inv c (snd (open_block e len ?v ?s1))
       \<and> tb_limit (per_cpu (snd (open_block e len ?v ?s1)) c) \<noteq> 0
       \<and> within_one_block ?s1 (fst (open_block e len ?v ?s1)) len"
      by (simp add: arena_ok_def KUTRACEBLOCKSIZEU64_def)
    then show ?thesis
      unfolding eq by simp
  qed
qed

lemma get_slow_claim_inv:
  assumes inv: "state_inv c s" and c: "cpu e = c" and len: "1 \<le> len" "len \<le> 8"
  shows "state_inv c (snd (get_slow_claim e len s))
       \<and> traceblock_high (snd (get_slow_claim e len s)) = traceblock_high s
       \<and> traceblock_limit (snd (get_slow_claim e len s)) = traceblock_limit s
       \<and> (tb_limit (per_cpu s c) \<noteq> 0 \<longrightarrow>
            tb_limit (per_cpu (snd (get_slow_claim e len s)) c) \<noteq> 0)
       \<and> (fst (get_slow_claim e len s) \<noteq> 0 \<longrightarrow>
            within_one_block s (fst (get_slow_claim e len s)) len)"
proof -
  let ?s1 = "atomic_add_next c len s"
  have good: "\<not> is_bad_len len" using len by (simp add: is_bad_len_def)
  have inv1: "state_inv c ?s1" using inv len by (simp add: state_inv_add)
  show ?thesis
  proof (cases "tb_limit (per_cpu s c) \<le> tb_next (per_cpu s c) + len \<or> tb_limit (per_cpu s c) = 0")
    case True
    then have eq: "get_slow_claim e len s = really_get_slow_claim e len ?s1"
      using good c by (auto simp: get_slow_claim_def Let_def)
    show ?thesis
      unfolding eq using really_get_slow_claim_inv[OF inv1 c len]
      by simp
  next
    case False
    then have eq: "get_slow_claim e len s = (tb_next (per_cpu s c), ?s1)"
      using good c by (auto simp: get_slow_claim_def Let_def)
    have cu: "cursor_ok c s" using inv by (simp add: state_inv_def)
    have "within_one_block s (tb_next (per_cpu s c)) len"
      apply (rule in_block_within[where b = "tb_limit (per_cpu s c) - KUTRACEBLOCKSIZEU64"])
      using cu False len by (auto simp: cursor_ok_def dvd_block_step)
    then show ?thesis using inv1 by (simp add: eq)
  qed
qed

lemma get_claim_inv:
  assumes inv: "state_inv (cpu e) s" and len: "1 \<le> len" "len \<le> 8" and ok: "env_ok e len"
  shows "state_inv (cpu e) (snd (get_claim e len s))
       \<and> traceblock_high (snd (get_claim e len s)) = traceblock_high s
       \<and> traceblock_limit (snd (get_claim e len s)) = traceblock_limit s
       \<and> (tb_limit (per_cpu s (cpu e)) \<noteq> 0 \<longrightarrow>
            tb_limit (per_cpu (snd (get_claim e len s)) (cpu e)) \<noteq> 0)
       \<and> (fst (get_claim e len s) \<noteq> 0 \<longrightarrow> within_one_block s (fst (get_claim e len s)) len)"
proof -
  let ?c = "cpu e"
  have good: "\<not> is_bad_len len" using len by (simp add: is_bad_len_def)
  obtain mc ag s1 where fl: "fast_loop ?c len (loop_irqs e) (0, 0) s = ((mc, ag), s1)"
    by (metis surj_pair)
  have irqs: "\<forall>(b, a) \<in> set (loop_irqs e). irq_ok ?c b \<and> irq_ok ?c a \<and> no_aba ?c len b a"
    and slow: "irq_ok ?c (slow_irq e)"
    using ok by (simp_all add: env_ok_def)
  have loc: "tb_limit (per_cpu s ?c) = 0 \<longrightarrow> snd (0::int, 0::int) \<le> fst (0::int, 0::int) + len"
    using len by simp
  have len0: "0 \<le> len" using len by simp
  note L = fast_loop_inv[OF inv len0 irqs loc fl]
  show ?thesis
  proof (cases "ag \<le> mc + len")
    case True
    let ?s2 = "slow_irq e s1"
    have eq: "get_claim e len s = get_slow_claim e len ?s2"
      using good True by (simp add: get_claim_def fl)
    have s2: "state_inv ?c ?s2" "traceblock_high ?s2 = traceblock_high s"
      "traceblock_limit ?s2 = traceblock_limit s"
      "tb_limit (per_cpu s ?c) \<noteq> 0 \<longrightarrow> tb_limit (per_cpu ?s2 ?c) \<noteq> 0"
      using slow L by (auto simp: irq_ok_def)
    show ?thesis
      unfolding eq using get_slow_claim_inv[OF s2(1) refl len] s2
      by (simp add: within_one_block_frame[where s' = ?s2 and s = s])
  next
    case False
    then have eq: "get_claim e len s = (mc, s1)"
      using good by (simp add: get_claim_def fl)
    from False L have b: "ag - KUTRACEBLOCKSIZEU64 \<le> mc" "block_limit s ag" by auto
    have "within_one_block s mc len"
      apply (rule in_block_within[where b = "ag - KUTRACEBLOCKSIZEU64"])
      using b False len by (auto simp: block_limit_def dvd_block_step)
    then show ?thesis using L by (simp add: eq)
  qed
qed


lemma env_ok_quiet: "env_ok (quiet_env c t) len"
  by (simp add: env_ok_def irq_ok_id)

lemma irq_ok_nested_claim:
  assumes "1 \<le> len" "len \<le> 8"
  shows "irq_ok c (nested_claim c t len)"
  unfolding irq_ok_def nested_claim_def
proof (intro allI impI)
  fix s assume "state_inv c s"
  then have "state_inv (cpu (quiet_env c t)) s" by simp
  from get_claim_inv[OF this assms env_ok_quiet]
  show "state_inv c (snd (get_claim (quiet_env c t) len s)) \<and>
         traceblock_high (snd (get_claim (quiet_env c t) len s)) = traceblock_high s \<and>
         traceblock_limit (snd (get_claim (quiet_env c t) len s)) = traceblock_limit s \<and>
         (tb_limit (per_cpu s c) \<noteq> 0 \<longrightarrow>
          tb_limit (per_cpu (snd (get_claim (quiet_env c t) len s)) c) \<noteq> 0)"
    by simp
qed

lemma state_inv_nearly_full: "state_inv 0 nearly_full"
  by (simp add: state_inv_def arena_ok_def cursor_ok_def KUTRACEBLOCKSIZEU64_def)

lemma get_claim_interrupted_example:
  "get_claim ((quiet_env 0 5)\<lparr>loop_irqs := [(nested_claim 0 6 8, id)]\<rparr>) 1 nearly_full
     = (0x13C00E, atomic_add_next 0 1 (nested_claim 0 6 8 nearly_full))"
  by (simp add: get_claim_def is_bad_len_def fast_iter_def Let_def nested_claim_rolls
      open_block_fst KUTRACEBLOCKSIZEU64_def)


text \<open>Well-formedness is where every session starts: Reset establishes it for every online
  CPU of a module loaded with at least 1 MiB, and \<open>get_claim\<close> keeps it (\<open>get_claim_inv\<close>).\<close>

lemma state_inv_after_reset:
  assumes "0 < tracebase s" "1 \<le> tracemb s" "c \<in> set (online_cpus s)"
  shows "state_inv c (snd (do_reset flags s))"
proof -
  have a: "KUTRACEBLOCKSIZEU64 dvd tracemb s * 2 ^ 17"
    by (simp add: KUTRACEBLOCKSIZEU64_def dvd_def)
  have b: "KUTRACEBLOCKSIZEU64 dvd (tracemb s * 2 ^ 17 - tracemb s * 2 ^ 14)"
    by (simp add: KUTRACEBLOCKSIZEU64_def dvd_def)
  have "arena_ok (snd (do_reset flags s))"
    using assms(1,2) a b by (simp add: arena_ok_def KUTRACEBLOCKSIZEU64_def)
  moreover have "cursor_ok c (snd (do_reset flags s))"
    using assms(3) by (simp add: cursor_ok_def do_reset_per_cpu)
  ultimately show ?thesis by (simp add: state_inv_def)
qed

text \<open>
  Where the guarantee holds. From every well-formed state, for every length \<open>len\<close> in
  \<open>1..8\<close>, a non-\<open>NULL\<close> result of \<open>get_claim\<close>, of \<open>get_slow_claim\<close> or of
  \<open>really_get_slow_claim\<close> is a region of \<open>len\<close> words that lies in the arena
  \<open>[traceblock_limit, traceblock_high)\<close> and inside one 64 KiB block of it, provided the
  same-CPU interrupts keep the state well formed and, within one pass of the fast path, do
  not bring the CPU's limit back to a value it had left (\<open>no_aba\<close>). A call that nothing
  interrupts meets the proviso (\<open>env_ok_quiet\<close>), and the two slow-path functions need none.
  The cursor of a CPU that was offline at Reset is not reset, so \<open>state_inv_after_reset\<close>
  does not speak of it.
\<close>

theorem claim_within_one_block:
  assumes "state_inv (cpu e) s" and "1 \<le> len" and "len \<le> 8" and "env_ok e len"
  shows "(fst (get_claim e len s) \<noteq> 0 \<longrightarrow> within_one_block s (fst (get_claim e len s)) len)
       \<and> (fst (get_slow_claim e len s) \<noteq> 0 \<longrightarrow>
            within_one_block s (fst (get_slow_claim e len s)) len)
       \<and> (fst (really_get_slow_claim e len s) \<noteq> 0 \<longrightarrow>
            within_one_block s (fst (really_get_slow_claim e len s)) len)"
  using get_claim_inv[OF assms] get_slow_claim_inv[OF assms(1) refl assms(2,3)]
    really_get_slow_claim_inv[OF assms(1) refl assms(2,3)]
  by blast

theorem claim_within_one_block_witness:
  "state_inv 0 nearly_full
   \<and> env_ok ((quiet_env 0 5)\<lparr>loop_irqs := [(nested_claim 0 6 8, id)]\<rparr>) 1
   \<and> fst (get_claim ((quiet_env 0 5)\<lparr>loop_irqs := [(nested_claim 0 6 8, id)]\<rparr>) 1 nearly_full)
       = 0x13C00E
   \<and> within_one_block nearly_full 0x13C00E 1"
proof -
  have e: "env_ok ((quiet_env 0 5)\<lparr>loop_irqs := [(nested_claim 0 6 8, id)]\<rparr>) 1"
    by (simp add: env_ok_def irq_ok_id irq_ok_nested_claim no_aba_id_after)
  have s: "state_inv (cpu ((quiet_env 0 5)\<lparr>loop_irqs := [(nested_claim 0 6 8, id)]\<rparr>)) nearly_full"
    by (simp add: state_inv_nearly_full)
  show ?thesis
    using claim_within_one_block[OF s _ _ e] e state_inv_nearly_full
    by (simp add: get_claim_interrupted_example)
qed

section \<open>A limit that comes back: a claim across a block boundary\<close>

text \<open>
  The cursor fields after an undisturbed claim are a function of the cursor fields before
  it, so a run of claims can be followed on the six fields alone.
\<close>

lemma really_view:
  "cpu e = c \<Longrightarrow> alloc_view c (snd (really_get_slow_claim e len s)) =
    (if traceblock_limit s \<le> traceblock_next s - KUTRACEBLOCKSIZEU64
     then (traceblock_high s, traceblock_limit s, do_wrap s,
           traceblock_next s - KUTRACEBLOCKSIZEU64,
           traceblock_next s - KUTRACEBLOCKSIZEU64
             + (if traceblock_next s = traceblock_high s then 12 else 6) + len,
           traceblock_next s)
     else if do_wrap s
     then (traceblock_high s, traceblock_limit s, do_wrap s,
           traceblock_high s - 2 * KUTRACEBLOCKSIZEU64,
           traceblock_high s - 2 * KUTRACEBLOCKSIZEU64
             + (if traceblock_next s = traceblock_high s then 12 else 6) + len,
           traceblock_high s - KUTRACEBLOCKSIZEU64)
     else (traceblock_high s, traceblock_limit s, do_wrap s,
           traceblock_next s - KUTRACEBLOCKSIZEU64,
           tb_next (per_cpu s c), tb_limit (per_cpu s c)))"
  by (simp add: alloc_view_def really_get_slow_claim_def Let_def open_block_fst
      KUTRACEBLOCKSIZEU64_def)

lemma nested_claim_view:
  assumes "1 \<le> len" "len \<le> 8"
  shows "alloc_view c (nested_claim c t len s) = claim_view len (alloc_view c s)"
proof -
  have good: "\<not> is_bad_len len" and len0: "0 \<le> len"
    using assms by (simp_all add: is_bad_len_def)
  let ?e = "quiet_env c t"
  consider (fast) "tb_limit (per_cpu s c) \<noteq> 0"
      "tb_next (per_cpu s c) + len < tb_limit (per_cpu s c)"
    | (full) "tb_limit (per_cpu s c) \<noteq> 0"
      "tb_limit (per_cpu s c) \<le> tb_next (per_cpu s c) + len"
    | (first) "tb_limit (per_cpu s c) = 0" by linarith
  then show ?thesis
  proof cases
    case fast
    then have "get_claim ?e len s = (tb_next (per_cpu s c), atomic_add_next c len s)"
      using get_claim_quiet_fast[of ?e len s] good by simp
    then show ?thesis using fast by (simp add: nested_claim_def alloc_view_def)
  next
    case full
    then have "get_claim ?e len s
        = really_get_slow_claim ?e len (atomic_add_next c len (atomic_add_next c len s))"
      using get_claim_quiet_full[of ?e len s] good len0 by simp
    then show ?thesis using full
      by (simp add: nested_claim_def really_view) (simp add: alloc_view_def)
  next
    case first
    then have "get_claim ?e len s = really_get_slow_claim ?e len (atomic_add_next c len s)"
      using get_claim_quiet_first[of ?e len s] good len0 by simp
    then show ?thesis using first
      by (simp add: nested_claim_def really_view) (simp add: alloc_view_def)
  qed
qed

lemma busy_irq_view:
  "alloc_view 0 (busy_irq n s) = (claim_view 8 ^^ n) (alloc_view 0 s)"
  by (induction n) (simp_all add: busy_irq_def nested_claim_view)

lemma atomic_add_view:
  "alloc_view c (atomic_add_next c len s) =
    (case alloc_view c s of (high, limit, wrap, frontier, next_item, limit_item) \<Rightarrow>
       (high, limit, wrap, frontier, next_item + len, limit_item))"
  by (simp add: alloc_view_def)

lemma view_fields:
  "alloc_view c s = (high, limit, wrap, frontier, next_item, limit_item) \<Longrightarrow>
     traceblock_high s = high \<and> traceblock_limit s = limit \<and> do_wrap s = wrap
   \<and> traceblock_next s = frontier \<and> tb_next (per_cpu s c) = next_item
   \<and> tb_limit (per_cpu s c) = limit_item"
  by (simp add: alloc_view_def)

text \<open>\<open>n\<close> claims that all fit move the cursor by \<open>n * len\<close> and nothing else.\<close>

lemma fill_view:
  assumes "limit_item \<noteq> 0" "0 < len" "next_item + len * int n < limit_item"
  shows "(claim_view len ^^ n) (high, limit, wrap, frontier, next_item, limit_item)
          = (high, limit, wrap, frontier, next_item + len * int n, limit_item)"
  using assms
proof (induction n)
  case 0 then show ?case by simp
next
  case (Suc n)
  have "next_item + len * int n < limit_item"
    using Suc.prems by (simp add: algebra_simps)
  then show ?case using Suc by (simp add: algebra_simps)
qed

text \<open>From a block just opened by a claim of eight words, 1022 more such claims fill the
  block up to its last two words, and one more opens the block below it.\<close>

lemma cycle_view:
  assumes "limit \<le> frontier - KUTRACEBLOCKSIZEU64" "frontier \<noteq> high" "0 < limit"
  shows "(claim_view 8 ^^ 1023)
           (high, limit, wrap, frontier, frontier + 14, frontier + KUTRACEBLOCKSIZEU64)
          = (high, limit, wrap, frontier - KUTRACEBLOCKSIZEU64,
             frontier - KUTRACEBLOCKSIZEU64 + 14, frontier)"
proof -
  have nz: "frontier + KUTRACEBLOCKSIZEU64 \<noteq> 0"
    using assms by (simp add: KUTRACEBLOCKSIZEU64_def)
  have "(claim_view 8 ^^ 1022)
           (high, limit, wrap, frontier, frontier + 14, frontier + KUTRACEBLOCKSIZEU64)
        = (high, limit, wrap, frontier, frontier + 14 + 8 * int 1022,
           frontier + KUTRACEBLOCKSIZEU64)"
    by (rule fill_view) (use nz in \<open>simp_all add: KUTRACEBLOCKSIZEU64_def\<close>)
  moreover have "(claim_view 8 ^^ 1023) v = claim_view 8 ((claim_view 8 ^^ 1022) v)" for v
    using funpow.simps(2)[of 1022 "claim_view 8"] by simp
  ultimately show ?thesis using assms by (simp add: KUTRACEBLOCKSIZEU64_def)
qed

lemma cycles_view:
  assumes "limit \<le> frontier - int k * KUTRACEBLOCKSIZEU64" "frontier < high" "0 < limit"
  shows "(claim_view 8 ^^ (1023 * k))
           (high, limit, wrap, frontier, frontier + 14, frontier + KUTRACEBLOCKSIZEU64)
          = (high, limit, wrap, frontier - int k * KUTRACEBLOCKSIZEU64,
             frontier - int k * KUTRACEBLOCKSIZEU64 + 14,
             frontier - int k * KUTRACEBLOCKSIZEU64 + KUTRACEBLOCKSIZEU64)"
  using assms
proof (induction k)
  case 0 then show ?case by simp
next
  case (Suc k)
  let ?f = "frontier - int k * KUTRACEBLOCKSIZEU64"
  have ih: "(claim_view 8 ^^ (1023 * k))
           (high, limit, wrap, frontier, frontier + 14, frontier + KUTRACEBLOCKSIZEU64)
          = (high, limit, wrap, ?f, ?f + 14, ?f + KUTRACEBLOCKSIZEU64)"
    using Suc by (simp add: algebra_simps KUTRACEBLOCKSIZEU64_def)
  have a: "limit \<le> ?f - KUTRACEBLOCKSIZEU64" "?f \<noteq> high"
    using Suc.prems by (simp_all add: algebra_simps KUTRACEBLOCKSIZEU64_def)
  have "(claim_view 8 ^^ (1023 * Suc k)) v
          = (claim_view 8 ^^ 1023) ((claim_view 8 ^^ (1023 * k)) v)" for v
    using funpow_add[of 1023 "1023 * k" "claim_view 8"] by simp
  then show ?case
    using cycle_view[OF a Suc.prems(3), of wrap] ih by (simp add: algebra_simps)
qed

text \<open>The session: after Reset nothing is open; the first claim opens block 0, 1021 more
  fill it, and the last of the 1023 opens block 1.\<close>

lemma reset_view:
  "alloc_view 0 (snd (do_reset DO_WRAP (kutrace_mod_init 0x100000 1 [0] (\<lambda>_. 0))))
     = (1179648, 1048576, True, 1179648, 0, 0)"
  by (simp add: alloc_view_def do_reset_per_cpu DO_WRAP_def DO_IPC_def)

lemma block1_open_view:
  "alloc_view 0 block1_open = (1179648, 1048576, True, 1163264, 1163278, 1171456)"
proof -
  let ?f = "claim_view 8"
  have split: "(?f ^^ 1023) v = ?f ((?f ^^ 1021) (?f v))" for v
    using funpow_add[of 1022 1 ?f] funpow.simps(2)[of 1021 ?f] by simp
  have first: "?f (1179648, 1048576, True, 1179648, 0, 0)
      = (1179648, 1048576, True, 1171456, 1171476, 1179648)"
    by (simp add: KUTRACEBLOCKSIZEU64_def)
  have fill: "(?f ^^ 1021) (1179648, 1048576, True, 1171456, 1171476, 1179648)
      = (1179648, 1048576, True, 1171456, 1171476 + 8 * int 1021, 1179648)"
    by (rule fill_view) simp_all
  show ?thesis
    unfolding block1_open_def busy_irq_view reset_view split first fill
    by (simp add: KUTRACEBLOCKSIZEU64_def)
qed

text \<open>The first interrupt: 1022 claims fill block 1, the next opens block 2 (limit
  1163264), and 1022 more fill block 2 up to its last two words.\<close>

lemma before_view:
  "(claim_view 8 ^^ 2045) (1179648, 1048576, True, 1163264, 1163278, 1171456)
     = (1179648, 1048576, True, 1155072, 1163262, 1163264)"
proof -
  let ?f = "claim_view 8"
  have split: "(?f ^^ 2045) v = (?f ^^ 1022) ((?f ^^ 1023) v)" for v
    using funpow_add[of 1022 1023 ?f] by simp
  have cyc: "(?f ^^ 1023) (1179648, 1048576, True, 1163264, 1163278, 1171456)
      = (1179648, 1048576, True, 1155072, 1155086, 1163264)"
    using cycle_view[of 1048576 1163264 1179648 True] by (simp add: KUTRACEBLOCKSIZEU64_def)
  have fill: "(?f ^^ 1022) (1179648, 1048576, True, 1155072, 1155086, 1163264)
      = (1179648, 1048576, True, 1155072, 1155086 + 8 * int 1022, 1163264)"
    by (rule fill_view) simp_all
  show ?thesis unfolding split cyc fill by simp
qed

text \<open>The second interrupt finds the cursor past the end of block 2: its first claim opens
  block 3, twelve rounds of 1023 claims open blocks 4 to 15, 1022 claims fill block 15, and
  the last claim finds the arena used up, wraps, and opens block 1 again.\<close>

lemma after_view:
  "(claim_view 8 ^^ 13300) (1179648, 1048576, True, 1155072, 1163270, 1163264)
     = (1179648, 1048576, True, 1163264, 1163278, 1171456)"
proof -
  let ?f = "claim_view 8"
  have split: "(?f ^^ 13300) v = ?f ((?f ^^ 1022) ((?f ^^ (1023 * 12)) (?f v)))" for v
    using funpow_add[of 1023 12277 ?f] funpow_add[of "1023 * 12" 1 ?f]
      funpow.simps(2)[of 1022 ?f] by simp
  have roll: "?f (1179648, 1048576, True, 1155072, 1163270, 1163264)
      = (1179648, 1048576, True, 1146880, 1146894, 1155072)"
    by (simp add: KUTRACEBLOCKSIZEU64_def)
  have cyc: "(?f ^^ (1023 * 12)) (1179648, 1048576, True, 1146880, 1146894, 1155072)
      = (1179648, 1048576, True, 1048576, 1048590, 1056768)"
    using cycles_view[of 1048576 1146880 12 1179648 True] by (simp add: KUTRACEBLOCKSIZEU64_def)
  have fill: "(?f ^^ 1022) (1179648, 1048576, True, 1048576, 1048590, 1056768)
      = (1179648, 1048576, True, 1048576, 1048590 + 8 * int 1022, 1056768)"
    by (rule fill_view) simp_all
  show ?thesis unfolding split roll cyc fill by (simp add: KUTRACEBLOCKSIZEU64_def)
qed

lemma before_irq_view:
  "alloc_view 0 (busy_irq 2045 block1_open)
     = (1179648, 1048576, True, 1155072, 1163262, 1163264)"
  by (simp only: busy_irq_view block1_open_view before_view)

lemma after_irq_view:
  "alloc_view 0 (busy_irq 13300 (atomic_add_next 0 8 (busy_irq 2045 block1_open)))
     = (1179648, 1048576, True, 1163264, 1163278, 1171456)"
proof -
  have "alloc_view 0 (atomic_add_next 0 8 (busy_irq 2045 block1_open))
      = (1179648, 1048576, True, 1155072, 1163270, 1163264)"
    by (simp add: atomic_add_view before_irq_view)
  then show ?thesis by (simp only: busy_irq_view after_view)
qed

lemma interrupted_claim_run:
  "get_claim ((quiet_env 0 5)\<lparr>loop_irqs := [(busy_irq 2045, busy_irq 13300)]\<rparr>) 8 block1_open
     = (1163262, busy_irq 13300 (atomic_add_next 0 8 (busy_irq 2045 block1_open)))"
  by (simp add: get_claim_def is_bad_len_def fast_iter_def Let_def
      view_fields[OF block1_open_view] view_fields[OF before_irq_view]
      view_fields[OF after_irq_view])

text \<open>Both interrupts are of the kind the allocator is written for: they keep arena and
  cursor well formed and leave the CPU with a block.\<close>

lemma irq_ok_funpow: "irq_ok c f \<Longrightarrow> irq_ok c (f ^^ n)"
proof (induction n)
  case 0 then show ?case by (simp add: irq_ok_def)
next
  case (Suc n)
  then have "irq_ok c (f ^^ n)" by simp
  with Suc.prems show ?case unfolding irq_ok_def funpow.simps o_apply by metis
qed

lemma irq_ok_busy: "irq_ok 0 (busy_irq n)"
  by (simp add: busy_irq_def irq_ok_funpow irq_ok_nested_claim)

text \<open>
  Claim C1. A successful claim of 1 to 8 words lies in one block of the arena and never
  crosses a block boundary; the source says the same (``Trace entries do not cross block
  boundaries''). In wrap mode the fast path of \<open>get_claim\<close> breaks this. When the limit it
  re-reads after the atomic add equals the limit it read before, it takes the claim as good
  (``All is good'') without testing it against the block; but blocks are used again after a
  wrap, so the limit can leave and come back.

  In the session \<open>block1_open\<close> CPU 0 owns block 1, whose limit is 1171456, and the state
  is well formed. \<open>get_claim\<close> is called for eight words and reads that limit. An interrupt
  then fills block 1, opens block 2, whose limit is 1163264, and fills it up to 1163262; the
  atomic add takes the eight words from 1163262; a second interrupt uses up blocks 3 to 15,
  wraps round and opens block 1 again, so the limit re-read is 1171456. \<open>get_claim\<close> returns
  1163262: the first two words of the region are the last two of block 2, the other six
  are the first six of block 1, the header the interrupt has just written.
\<close>

theorem claim_crosses_block_boundary:
  "state_inv 0 block1_open
   \<and> traceblock_high block1_open = 1179648
   \<and> traceblock_limit block1_open = 1048576
   \<and> tb_limit (per_cpu block1_open 0) = 1171456
   \<and> tb_limit (per_cpu (busy_irq 2045 block1_open) 0) = 1163264
   \<and> tb_next (per_cpu (busy_irq 2045 block1_open) 0) = 1163262
   \<and> tb_limit (per_cpu (busy_irq 13300 (atomic_add_next 0 8 (busy_irq 2045 block1_open))) 0)
       = 1171456
   \<and> fst (get_claim ((quiet_env 0 5)\<lparr>loop_irqs := [(busy_irq 2045, busy_irq 13300)]\<rparr>) 8
            block1_open) = 1163262
   \<and> block_number block1_open 1163262 = 2
   \<and> block_number block1_open (1163262 + 8 - 1) = 1
   \<and> \<not> within_one_block block1_open 1163262 8"
  by (simp add: interrupted_claim_run view_fields[OF block1_open_view]
      view_fields[OF before_irq_view] view_fields[OF after_irq_view]
      state_inv_def arena_ok_def cursor_ok_def within_one_block_def block_number_def
      KUTRACEBLOCKSIZEU64_def)

section \<open>The call/return merge\<close>














lemma just_recorded_fields [simp]:
  "kutrace_tracing (just_recorded w)" "\<not> do_ipc (just_recorded w)"
  "tb_next (per_cpu (just_recorded w) c) = 0x13E00D"
  "tb_limit (per_cpu (just_recorded w) c) = 0x140000"
  "mem (just_recorded w) = (\<lambda>_. 0)(0x13E00C := w)"
  by (simp_all add: just_recorded_def)

lemma insert_1_fast_no_ipc:
  assumes "loop_irqs e = []" "tb_limit (per_cpu s (cpu e)) \<noteq> 0"
    "tb_next (per_cpu s (cpu e)) + 1 < tb_limit (per_cpu s (cpu e))"
    "tb_next (per_cpu s (cpu e)) \<noteq> 0" "\<not> do_ipc s"
  shows "insert_1 e arg1 s =
    Inr (1, (atomic_add_next (cpu e) 1 s)
              \<lparr>mem := (mem s)(tb_next (per_cpu s (cpu e)) := arg1 OR push_bit TIMESTAMP_SHIFT (now e))\<rparr>)"
  using assms by (simp add: insert_1_def get_claim_quiet_fast is_bad_len_def)


lemma spec_merge_cond_example:
  "spec_merge_cond (quiet_env 0 110) 0xA00 5 (just_recorded 0x0006480001000000)"
  "spec_merge_cond (quiet_env 0 110) 0xA00 5 (just_recorded 0x0006480000000000)"
  "spec_merge_cond (quiet_env 0 300) 0xA00 (- 5) (just_recorded 0x0006480000000000)"
  by (simp_all add: spec_merge_cond_def prior_slot_def event_field_def elapsed_ticks_def
      field_consts)




text \<open>The same test also looks at bits 16 to 31 of the argument: a return value of -5, passed
  sign-extended, 200 ticks after its call, meets the four conditions and is not merged
  either.\<close>

lemma negative_return_not_merged:
  "spec_merge_cond (quiet_env 0 300) 0xA00 (- 5) (just_recorded 0x0006480000000000)
   \<and> observe (trace_1 (quiet_env 0 300) 0xA00 (- 5) (just_recorded 0x0006480000000000))
       = Inr (0x13E00E, 0x0006480000000000, 0x0012CA00FFFFFFFB)"
  by (simp add: spec_merge_cond_example observe_def trace_1_def
      insert_1_retopt_def get_prior_def insert_1_fast_no_ipc field_consts)





section \<open>Reading back ten inserted words\<close>

lemma memcpy_words_other: "a < p \<Longrightarrow> memcpy_words m p ws a = m a"
  by (induction ws arbitrary: m p) auto

lemma zero_words_mem:
  "fst (zero_words p l m z) a = (if p \<le> a \<and> a < l then 0 else m a)"
proof (induction p l m z rule: zero_words.induct)
  case (1 p l m z)
  show ?case
  proof (cases "p < l")
    case True
    have IH: "fst (zero_words (p + 1) l (m(p := 0)) (z + 1)) a
                = (if p + 1 \<le> a \<and> a < l then 0 else (m(p := 0)) a)"
      using 1[OF True] .
    have "zero_words p l m z = zero_words (p + 1) l (m(p := 0)) (z + 1)"
      using True by (subst zero_words.simps) simp
    then show ?thesis using True by (auto simp: IH)
  next
    case False
    then show ?thesis by (subst zero_words.simps) auto
  qed
qed

lemma force_insert1:
  "tracebase s \<noteq> 0 \<Longrightarrow> kutrace_control e CMD_FORCE_INSERT1 w s = insert_1 e w s"
  by (simp add: kutrace_control_def)

lemma first_insert:
  assumes b: "0 < base"
  shows "\<exists>s'. kutrace_control (quiet_env 0 t) CMD_FORCE_INSERT1 w
                 (snd (do_reset 0 (kutrace_mod_init base 2 [0] im))) = Inr (1, s')
              \<and> first_block_holds base (t AND FULL_TIMESTAMP_MASK) [stamped (t, w)] s'"
proof -
  let ?s = "snd (do_reset 0 (kutrace_mod_init base 2 [0] im))"
  let ?e = "quiet_env 0 t"
  let ?s1 = "(atomic_add_next 0 1 ?s)\<lparr>traceblock_next := base + 253952\<rparr>"
  have pc: "tb_limit (per_cpu ?s 0) = 0" "tb_next (per_cpu ?s 0) = 0"
    "prior_cycles (per_cpu ?s 0) = 0"
    by (simp_all add: do_reset_per_cpu)
  have gc: "get_claim ?e 1 ?s = open_block ?e 1 True ?s1"
    using b
    by (simp add: get_claim_quiet_first pc is_bad_len_def really_get_slow_claim_room
        DO_IPC_def KUTRACEBLOCKSIZEU64_def add.commute)
  have cl: "fst (open_block ?e 1 True ?s1) = base + 253964"
    by (simp add: open_block_fst)
  have ipc: "\<not> do_ipc (snd (open_block ?e 1 True ?s1))" by (simp add: DO_IPC_def)
  have m: "mem (snd (open_block ?e 1 True ?s1)) (base + 253952) = t AND FULL_TIMESTAMP_MASK"
    "mem (snd (open_block ?e 1 True ?s1)) (base + 253961) = 0"
    "mem (snd (open_block ?e 1 True ?s1)) (base + 253962) = 0x74696e69"
    by (simp_all add: open_block_def initialize_trace_block_def Let_def split_beta
        kCounterWrapMask_def kCounterWrapIncrease_def CPU_NUMBER_SHIFT_def DO_IPC_def DO_WRAP_def
        KUTRACEBLOCKSIZEU64_def pc)
  have "insert_1 ?e w ?s =
      Inr (1, (snd (open_block ?e 1 True ?s1))
                \<lparr>mem := (mem (snd (open_block ?e 1 True ?s1)))
                           (base + 253964 := w OR push_bit TIMESTAMP_SHIFT t)\<rparr>)"
    using b ipc by (simp add: insert_1_def gc split_beta cl)
  moreover have "first_block_holds base (t AND FULL_TIMESTAMP_MASK) [stamped (t, w)]
      ((snd (open_block ?e 1 True ?s1))
                \<lparr>mem := (mem (snd (open_block ?e 1 True ?s1)))
                           (base + 253964 := w OR push_bit TIMESTAMP_SHIFT t)\<rparr>)"
    using m by (simp add: first_block_holds_def stamped_def cl DO_IPC_def KUTRACEBLOCKSIZEU64_def)
  ultimately show ?thesis using b by (simp add: force_insert1)
qed

lemma next_insert:
  assumes sh: "first_block_holds base hdr ws s" and b: "0 < base" and n: "length ws < 8000"
  shows "\<exists>s'. kutrace_control (quiet_env 0 t) CMD_FORCE_INSERT1 w s = Inr (1, s')
              \<and> first_block_holds base hdr (ws @ [stamped (t, w)]) s'"
proof -
  let ?e = "quiet_env 0 t"
  let ?n = "base + 253964 + int (length ws)"
  let ?s' = "(atomic_add_next 0 1 s)\<lparr>mem := (mem s)(?n := w OR push_bit TIMESTAMP_SHIFT t)\<rparr>"
  have f: "tracebase s = base" "\<not> do_ipc s" "tb_limit (per_cpu s 0) = base + 262144"
    "tb_next (per_cpu s 0) = ?n"
    using sh by (simp_all add: first_block_holds_def)
  have "insert_1 ?e w s = Inr (1, ?s')"
    using f b n by (simp add: insert_1_fast_no_ipc)
  moreover have "first_block_holds base hdr (ws @ [stamped (t, w)]) ?s'"
    using sh b n by (auto simp: first_block_holds_def stamped_def nth_append less_Suc_eq)
  ultimately show ?thesis using f b by (simp add: force_insert1)
qed

lemma more_inserts:
  assumes "first_block_holds base hdr ws s" "0 < base" "length ws + length tws < 8000"
  shows "\<exists>s'. control_seq (map (\<lambda>(t, w). (quiet_env 0 t, CMD_FORCE_INSERT1, w)) tws @ rest) s
                = control_seq rest s'
              \<and> first_block_holds base hdr (ws @ map stamped tws) s'"
  using assms
proof (induction tws arbitrary: ws s)
  case Nil
  then show ?case by auto
next
  case (Cons tw tws)
  obtain t w where tw: "tw = (t, w)" by (cases tw)
  have "length ws < 8000" using Cons.prems(3) by simp
  from next_insert[OF Cons.prems(1,2) this, of t w]
  obtain s1 where s1: "kutrace_control (quiet_env 0 t) CMD_FORCE_INSERT1 w s = Inr (1, s1)"
    "first_block_holds base hdr (ws @ [stamped (t, w)]) s1" by blast
  have "length (ws @ [stamped (t, w)]) + length tws < 8000" using Cons.prems(3) by simp
  from Cons.IH[OF s1(2) Cons.prems(2) this]
  obtain s' where s': "control_seq (map (\<lambda>(t, w). (quiet_env 0 t, CMD_FORCE_INSERT1, w)) tws @ rest) s1
                = control_seq rest s'"
    "first_block_holds base hdr ((ws @ [stamped (t, w)]) @ map stamped tws) s'" by blast
  show ?case using s' s1(1) by (auto simp: tw)
qed

lemma off_flush:
  assumes sh: "first_block_holds base hdr ws s" and b: "0 < base" and n: "length ws < 8000"
  shows "\<exists>s'. control_seq [(quiet_env 0 0, CMD_OFF, 0), (quiet_env 0 0, CMD_FLUSH, 0)] s = Inr s'
           \<and> tracebase s' = base \<and> \<not> did_wrap_around s'
           \<and> traceblock_high s' = base + 262144 \<and> traceblock_limit s' = base
           \<and> traceblock_next s' = base + 253952
           \<and> mem s' (base + 253952) = hdr
           \<and> mem s' (base + 253961) = 0
           \<and> mem s' (base + 253962) = 0x74696e69
           \<and> (\<forall>i < length ws. mem s' (base + 253964 + int i) = ws ! i)"
proof -
  let ?n = "base + 253964 + int (length ws)"
  let ?l = "base + 262144"
  let ?s0 = "s\<lparr>kutrace_tracing := False\<rparr>"
  obtain m z where zw: "zero_words ?n ?l (mem s) 0 = (m, z)" by (metis surj_pair)
  have m: "m a = (if ?n \<le> a \<and> a < ?l then 0 else mem s a)" for a
    using zero_words_mem[of ?n ?l "mem s" 0 a] by (simp add: zw)
  have f: "tracebase s = base" "online_cpus s = [0]" "tb_limit (per_cpu s 0) = ?l"
    "tb_next (per_cpu s 0) = ?n"
    using sh by (simp_all add: first_block_holds_def)
  have fl: "do_flush ?s0 = (word_of_int z, set_tb 0 (\<lambda>t. t\<lparr>tb_next := ?l\<rparr>) (?s0\<lparr>mem := m\<rparr>))"
    using f b by (simp add: do_flush_def flush_cpu_def Let_def zw)
  have "control_seq [(quiet_env 0 0, CMD_OFF, 0), (quiet_env 0 0, CMD_FLUSH, 0)] s
          = Inr (set_tb 0 (\<lambda>t. t\<lparr>tb_next := ?l\<rparr>) (?s0\<lparr>mem := m\<rparr>))"
    using f b by (simp add: kutrace_control_def do_trace_off_def fl)
  then show ?thesis
    using sh b by (auto simp: first_block_holds_def m)
qed

lemma small_index:
  fixes k :: u64 assumes "k < 8192"
  shows "drop_bit 13 k = 0" and "k AND 8191 = k" and "\<not> 8192 \<le> k"
proof -
  have u: "unat k < 8192" using assms by (simp add: word_less_nat_alt)
  have "unat (drop_bit 13 k) = drop_bit 13 (unat k)" by (rule unat_drop_bit_eq)
  also have "\<dots> = unat k div 8192" by (simp add: drop_bit_eq_div)
  also have "\<dots> = 0" using u by simp
  finally show "drop_bit 13 k = 0"
    by (simp add: word_unat_eq_iff)
  have "k < 2 ^ 13" using assms by simp
  then have "k AND mask 13 = k" by (rule less_mask_eq)
  then show "k AND 8191 = k"
    by (simp add: mask_eq_exp_minus_1)
  show "\<not> 8192 \<le> k" using assms by simp
qed

lemma get_word_first_block:
  assumes "tracebase s \<noteq> 0" "\<not> did_wrap_around s"
    "traceblock_high s = base + 262144" "traceblock_limit s = base"
    "traceblock_next s = base + 253952"
  shows "k < 8192 \<Longrightarrow>
           map_sum id fst (kutrace_control e CMD_GETWORD k s) = Inr (mem s (base + 253952 + uint k))"
    and "map_sum id fst (kutrace_control e CMD_GETWORD 8192 s) = Inr 0"
    and "map_sum id fst (kutrace_control e CMD_GETCOUNT a s) = Inr 8192"
  using assms
    apply (simp_all add: kutrace_control_def get_word_def get_count_def Let_def small_index
      KUTRACEBLOCKSHIFTU64_def)
  apply (rule arg_cong[where f = "mem s"])
  apply simp
  done

lemma uint_entry_index: "i < 8000 \<Longrightarrow> uint (12 + of_nat i :: u64) = 12 + int i"
proof -
  assume i: "i < 8000"
  have "(12 + of_nat i :: u64) = of_nat (12 + i)" by simp
  moreover have "unat (of_nat (12 + i) :: u64) = 12 + i"
    using i by (simp add: unat_of_nat del: of_nat_add)
  ultimately have "unat (12 + of_nat i :: u64) = 12 + i" by simp
  then show ?thesis by (simp add: uint_nat)
qed

lemma entry_index_small: "i < 8000 \<Longrightarrow> (12 + of_nat i :: u64) < 8192"
  using uint_entry_index[of i] by (simp add: word_less_def)

lemma forced_scenario_final:
  assumes b: "0 < base" and ne: "tws \<noteq> []" and n: "length tws < 8000"
  shows "\<exists>s'. inserts_scenario CMD_FORCE_INSERT1 base im tws = Inr s'
           \<and> tracebase s' = base \<and> \<not> did_wrap_around s'
           \<and> traceblock_high s' = base + 262144 \<and> traceblock_limit s' = base
           \<and> traceblock_next s' = base + 253952
           \<and> mem s' (base + 253952) = fst (hd tws) AND FULL_TIMESTAMP_MASK
           \<and> mem s' (base + 253961) = 0
           \<and> mem s' (base + 253962) = 0x74696e69
           \<and> (\<forall>i < length tws. mem s' (base + 253964 + int i) = stamped (tws ! i))"
proof -
  obtain t w rest where tws: "tws = (t, w) # rest" using ne by (cases tws) auto
  let ?s0 = "kutrace_mod_init base 2 [0] im"
  let ?tail = "[(quiet_env 0 0, CMD_OFF, 0), (quiet_env 0 0, CMD_FLUSH, 0)]"
  let ?ins = "\<lambda>(t, w). (quiet_env 0 t, CMD_FORCE_INSERT1, w)"
  have r: "kutrace_control (quiet_env 0 0) CMD_RESET 0 ?s0 = Inr (0, snd (do_reset 0 ?s0))"
    using b by (simp add: kutrace_control_def do_reset_def Let_def)
  from first_insert[OF b, of t w im]
  obtain s1 where s1: "kutrace_control (quiet_env 0 t) CMD_FORCE_INSERT1 w (snd (do_reset 0 ?s0))
                        = Inr (1, s1)"
    "first_block_holds base (t AND FULL_TIMESTAMP_MASK) [stamped (t, w)] s1" by blast
  have "length [stamped (t, w)] + length rest < 8000" using n tws by simp
  from more_inserts[OF s1(2) b this, of ?tail]
  obtain s2 where s2: "control_seq (map ?ins rest @ ?tail) s1 = control_seq ?tail s2"
    "first_block_holds base (t AND FULL_TIMESTAMP_MASK) ([stamped (t, w)] @ map stamped rest) s2"
    by blast
  have ws: "[stamped (t, w)] @ map stamped rest = map stamped tws" by (simp add: tws)
  have "length (map stamped tws) < 8000" using n by simp
  from off_flush[OF s2(2)[unfolded ws] b this]
  obtain s3 where s3: "control_seq ?tail s2 = Inr s3"
    "tracebase s3 = base" "\<not> did_wrap_around s3"
    "traceblock_high s3 = base + 262144" "traceblock_limit s3 = base"
    "traceblock_next s3 = base + 253952"
    "mem s3 (base + 253952) = t AND FULL_TIMESTAMP_MASK"
    "mem s3 (base + 253961) = 0"
    "mem s3 (base + 253962) = 0x74696e69"
    "\<forall>i < length (map stamped tws). mem s3 (base + 253964 + int i) = map stamped tws ! i"
    by blast
  have "inserts_scenario CMD_FORCE_INSERT1 base im tws = Inr s3"
    using r s1(1) s2(1) s3(1) by (simp add: inserts_scenario_def tws)
  moreover have "\<forall>i < length tws. mem s3 (base + 253964 + int i) = stamped (tws ! i)"
    using s3(10) by simp
  moreover have "fst (hd tws) = t" by (simp add: tws)
  ultimately show ?thesis using s3(2-9) by blast
qed

lemma forced_scenario_queries:
  assumes b: "0 < base" and ne: "tws \<noteq> []" and n: "length tws < 8000"
  shows "query CMD_GETCOUNT 0 (inserts_scenario CMD_FORCE_INSERT1 base im tws) = Inr 8192"
    and "i < length tws \<Longrightarrow>
          query CMD_GETWORD (12 + of_nat i) (inserts_scenario CMD_FORCE_INSERT1 base im tws)
            = Inr (stamped (tws ! i))"
    and "query CMD_GETWORD 0 (inserts_scenario CMD_FORCE_INSERT1 base im tws)
            = Inr (fst (hd tws) AND FULL_TIMESTAMP_MASK)"
    and "query CMD_GETWORD 9 (inserts_scenario CMD_FORCE_INSERT1 base im tws) = Inr 0"
    and "query CMD_GETWORD 10 (inserts_scenario CMD_FORCE_INSERT1 base im tws) = Inr 0x74696e69"
    and "query CMD_GETWORD 8192 (inserts_scenario CMD_FORCE_INSERT1 base im tws) = Inr 0"
proof -
  from forced_scenario_final[OF assms, of im]
  obtain s' where s': "inserts_scenario CMD_FORCE_INSERT1 base im tws = Inr s'"
    "tracebase s' = base" "\<not> did_wrap_around s'"
    "traceblock_high s' = base + 262144" "traceblock_limit s' = base"
    "traceblock_next s' = base + 253952"
    and m: "mem s' (base + 253952) = fst (hd tws) AND FULL_TIMESTAMP_MASK"
    "mem s' (base + 253961) = 0"
    "mem s' (base + 253962) = 0x74696e69"
    "\<forall>i < length tws. mem s' (base + 253964 + int i) = stamped (tws ! i)"
    by blast
  have tb: "tracebase s' \<noteq> 0" using b s'(2) by simp
  note gw = get_word_first_block[OF tb s'(3-6)]
  show "query CMD_GETCOUNT 0 (inserts_scenario CMD_FORCE_INSERT1 base im tws) = Inr 8192"
    by (simp add: query_def s'(1) gw(3))
  show "query CMD_GETWORD 8192 (inserts_scenario CMD_FORCE_INSERT1 base im tws) = Inr 0"
    by (simp add: query_def s'(1) gw(2))
  show "query CMD_GETWORD 0 (inserts_scenario CMD_FORCE_INSERT1 base im tws)
            = Inr (fst (hd tws) AND FULL_TIMESTAMP_MASK)"
    using gw(1)[of 0] m(1) by (simp add: query_def s'(1))
  show "query CMD_GETWORD 9 (inserts_scenario CMD_FORCE_INSERT1 base im tws) = Inr 0"
  proof -
    have "mem s' (253961 + base) = 0" using m(2) by (simp add: add.commute)
    then show ?thesis using gw(1)[of 9] by (simp add: query_def s'(1))
  qed
  show "query CMD_GETWORD 10 (inserts_scenario CMD_FORCE_INSERT1 base im tws) = Inr 0x74696e69"
  proof -
    have "mem s' (253962 + base) = 0x74696e69" using m(3) by (simp add: add.commute)
    then show ?thesis using gw(1)[of 10] by (simp add: query_def s'(1))
  qed
  show "query CMD_GETWORD (12 + of_nat i) (inserts_scenario CMD_FORCE_INSERT1 base im tws)
            = Inr (stamped (tws ! i))" if i: "i < length tws"
  proof -
    have i8: "i < 8000" using i n by simp
    have "base + 253952 + uint (12 + of_nat i :: u64) = base + 253964 + int i"
      by (simp add: uint_entry_index[OF i8])
    moreover have "mem s' (base + 253964 + int i) = stamped (tws ! i)"
      using m(4) i by blast
    ultimately have "mem s' (base + 253952 + uint (12 + of_nat i :: u64)) = stamped (tws ! i)"
      by (simp only:)
    then show ?thesis
      using gw(1)[OF entry_index_small[OF i8]] by (simp add: query_def s'(1))
  qed
qed

lemma plain_inserts_noop:
  assumes "\<not> kutrace_tracing s" "tracebase s \<noteq> 0"
  shows "control_seq (map (\<lambda>(t, w). (quiet_env 0 t, CMD_INSERT1, w)) tws @ rest) s
          = control_seq rest s"
  using assms by (induction tws) (auto simp: kutrace_control_def)

lemma plain_scenario_count:
  assumes b: "0 < base"
  shows "query CMD_GETCOUNT 0 (inserts_scenario CMD_INSERT1 base im tws) = Inr 0"
proof -
  let ?s0 = "kutrace_mod_init base 2 [0] im"
  let ?s1 = "snd (do_reset 0 ?s0)"
  have r: "kutrace_control (quiet_env 0 0) CMD_RESET 0 ?s0 = Inr (0, ?s1)"
    using b by (simp add: kutrace_control_def do_reset_def Let_def)
  have off: "?s1\<lparr>kutrace_tracing := False\<rparr> = ?s1" by (simp add: tracing_off_id)
  have fl: "do_flush ?s1 = (0, ?s1)"
    by (simp add: do_flush_def off flush_cpu_def Let_def do_reset_per_cpu)
  have "inserts_scenario CMD_INSERT1 base im tws = Inr ?s1"
    using b by (simp add: inserts_scenario_def plain_inserts_noop kutrace_control_def
        do_trace_off_def off fl split_beta)
  then show ?thesis
    using b by (simp add: query_def kutrace_control_def get_count_def Let_def DO_IPC_def)
qed

lemma ten_words_facts:
  "length ten_words = 10" "ten_words \<noteq> []" "fst (hd ten_words) = 1"
  "stamped (ten_words ! 0) = 0x0000120000000001"
  "stamped (ten_words ! 9) = 0x0000A2000000000A"
  by (simp_all add: ten_words_def stamped_def TIMESTAMP_SHIFT_def)


text \<open>
  Claim C7 says that after Reset with flags 0 on a 2 MiB arena, ten single-word inserts, Off
  and Flush, GetCount returns 10, GetWord(0) the most recently inserted word, GetWord(9) the
  oldest and GetWord(10) returns 0. \<open>get_count\<close> counts the words of the blocks opened, and
  \<open>get_word\<close> indexes those blocks from their first word, header included: with the ten words
  of \<open>ten_words\<close> inserted by the forced insert command, GetCount returns 8192, GetWord(0) the
  block's timestamp word, GetWord(9) the zero word after the pid and GetWord(10) the first
  eight bytes of the task name. (With the plain insert command nothing is inserted, since
  Reset leaves tracing off, and GetCount returns 0.)
\<close>

theorem ten_inserts_count_is_block:
  "query CMD_GETCOUNT 0 (inserts_scenario CMD_FORCE_INSERT1 0x100000 (\<lambda>_. 0) ten_words) = Inr 8192
   \<and> query CMD_GETWORD 0 (inserts_scenario CMD_FORCE_INSERT1 0x100000 (\<lambda>_. 0) ten_words) = Inr 1
   \<and> query CMD_GETWORD 9 (inserts_scenario CMD_FORCE_INSERT1 0x100000 (\<lambda>_. 0) ten_words) = Inr 0
   \<and> query CMD_GETWORD 10 (inserts_scenario CMD_FORCE_INSERT1 0x100000 (\<lambda>_. 0) ten_words)
       = Inr 0x74696e69
   \<and> query CMD_GETCOUNT 0 (inserts_scenario CMD_INSERT1 0x100000 (\<lambda>_. 0) ten_words) = Inr 0"
proof -
  have b: "(0::int) < 0x100000" by simp
  have n: "length ten_words < 8000" by (simp add: ten_words_facts)
  note q = forced_scenario_queries[OF b ten_words_facts(2) n, where im = "\<lambda>_. 0"]
  show ?thesis
    using q(1) q(3) q(4) q(5) plain_scenario_count[OF b, where im = "\<lambda>_. 0" and tws = ten_words]
    by (simp add: ten_words_facts FULL_TIMESTAMP_MASK_def)
qed


text \<open>
  Claim C7, amended. In the scenario Reset with flags 0 on a 2 MiB arena, then ten single-word
  inserts on one CPU (with the insert command that does not require tracing to be on), then
  Off, then Flush: GetCount returns 8192, the words of the one block opened; the ten inserted
  words, each with its insertion time in the timestamp field, are read by GetWord(12), the
  oldest, to GetWord(21), the most recent, after the twelve header words of the first block;
  GetWord(0) returns the block's time stamp word; and GetWord(8192) returns 0 as out of range.
\<close>

theorem ten_inserts_readback:
  assumes "0 < base" and "length tws = 10"
  shows "query CMD_GETCOUNT 0 (inserts_scenario CMD_FORCE_INSERT1 base im tws) = Inr 8192
       \<and> (\<forall>i<10. query CMD_GETWORD (12 + of_nat i)
                     (inserts_scenario CMD_FORCE_INSERT1 base im tws) = Inr (stamped (tws ! i)))
       \<and> query CMD_GETWORD 0 (inserts_scenario CMD_FORCE_INSERT1 base im tws)
           = Inr (fst (hd tws) AND FULL_TIMESTAMP_MASK)
       \<and> query CMD_GETWORD 8192 (inserts_scenario CMD_FORCE_INSERT1 base im tws) = Inr 0"
proof -
  have ne: "tws \<noteq> []" and n: "length tws < 8000" using assms(2) by auto
  note q = forced_scenario_queries[OF assms(1) ne n, where im = im]
  show ?thesis using q(1) q(2) q(3) q(6) assms(2) by simp
qed


theorem ten_inserts_readback_witness:
  "(0::int) < 0x100000 \<and> length ten_words = 10
   \<and> query CMD_GETCOUNT 0 (inserts_scenario CMD_FORCE_INSERT1 0x100000 (\<lambda>_. 0) ten_words) = Inr 8192
   \<and> query CMD_GETWORD 12 (inserts_scenario CMD_FORCE_INSERT1 0x100000 (\<lambda>_. 0) ten_words)
       = Inr 0x0000120000000001
   \<and> query CMD_GETWORD 21 (inserts_scenario CMD_FORCE_INSERT1 0x100000 (\<lambda>_. 0) ten_words)
       = Inr 0x0000A2000000000A
   \<and> query CMD_GETWORD 8192 (inserts_scenario CMD_FORCE_INSERT1 0x100000 (\<lambda>_. 0) ten_words)
       = Inr 0"
proof -
  have b: "(0::int) < 0x100000" by simp
  note t = ten_inserts_readback[OF b ten_words_facts(1), where im = "\<lambda>_. 0"]
  have w0: "query CMD_GETWORD 12 (inserts_scenario CMD_FORCE_INSERT1 0x100000 (\<lambda>_. 0) ten_words)
       = Inr 0x0000120000000001"
    using t[THEN conjunct2, THEN conjunct1, rule_format, of 0] by (simp add: ten_words_facts)
  have w9: "query CMD_GETWORD 21 (inserts_scenario CMD_FORCE_INSERT1 0x100000 (\<lambda>_. 0) ten_words)
       = Inr 0x0000A2000000000A"
    using t[THEN conjunct2, THEN conjunct1, rule_format, of 9] by (simp add: ten_words_facts)
  show ?thesis using t w0 w9 by (simp add: ten_words_facts)
qed

section \<open>A first insert with IPC annotation\<close>

text \<open>
  The zero divisor of \<open>get_granular\<close> is within reach of \<open>insert_1\<close>: the first insert of a
  CPU after a Reset with the IPC flag finds \<open>prior_cycles = 1\<close>, set by
  \<open>initialize_trace_block\<close>, so the cycle delta is the time counter minus one.
\<close>

lemma first_ipc_insert_divides_by_zero:
  "insert_1 (quiet_env 0 0x80000001) w (snd (do_reset DO_IPC (kutrace_mod_init 0x100000 2 [0] (\<lambda>_. 0))))
     = Inl Div_by_zero"
proof -
  let ?s = "snd (do_reset DO_IPC (kutrace_mod_init 0x100000 2 [0] (\<lambda>_. 0)))"
  let ?e = "quiet_env 0 0x80000001"
  let ?s1 = "(atomic_add_next 0 1 ?s)\<lparr>traceblock_next := 0x13E000\<rparr>"
  have d: "DO_IPC \<noteq> 0" "DO_IPC AND DO_IPC \<noteq> 0" by (simp_all add: DO_IPC_def)
  have pc: "tb_limit (per_cpu ?s 0) = 0" "tb_next (per_cpu ?s 0) = 0"
    "prior_cycles (per_cpu ?s 0) = 0" "prior_inst_retired (per_cpu ?s 0) = 0"
    by (simp_all add: do_reset_per_cpu)
  have gc: "get_claim ?e 1 ?s = open_block ?e 1 True ?s1"
    by (simp add: get_claim_quiet_first pc is_bad_len_def really_get_slow_claim_room
        d KUTRACEBLOCKSIZEU64_def)
  have cl: "fst (open_block ?e 1 True ?s1) = 0x13E00C"
    by (simp add: open_block_fst)
  have ipc: "do_ipc (snd (open_block ?e 1 True ?s1))" by (simp add: d)
  have pr: "prior_cycles (per_cpu (snd (open_block ?e 1 True ?s1)) 0) = 1"
    "prior_inst_retired (per_cpu (snd (open_block ?e 1 True ?s1)) 0) = 0"
    by (simp_all add: open_block_def initialize_trace_block_def Let_def split_beta pc set_tb_def)
  show ?thesis
    using ipc pr
    by (simp add: insert_1_def gc split_beta cl ipc_sample_def Let_def get_granular_def)
qed

end
